theory Spec2Isabelle
  imports Main "HOL-Library.Word"
begin

section \<open>The size negotiator: \<open>fitSize\<close>\<close>

text \<open>
  Go's \<open>int\<close> is modelled as \<open>int\<close>. The sums of \<open>ReqWidth\<close> and \<open>ReqHeight\<close> are
  over requirements that a widget is free to declare, and there the wrap-around at 64 bits
  is written out (\<open>wrap64\<close>). In \<open>fitSize\<close>, in the pen and in the cursor no
  wrap-around is modelled: the lemmas proved about them for all inputs describe the code
  where no sum or difference leaves the range of \<open>int\<close>.

  \<open>fitSize(n, t, sel)\<close> first fills \<open>sz\<close> and \<open>max\<close> from \<open>sel\<close> and subtracts every
  minimum from \<open>n\<close>:
  \<^verbatim>\<open>for i, t := range t { sz[i], max[i] = sel(t); n -= sz[i] }\<close>
  The result is the triple \<open>(n, sz, max)\<close> after the loop.
\<close>

fun fitSize_init :: "('a \<Rightarrow> int \<times> int) \<Rightarrow> 'a list \<Rightarrow> int \<Rightarrow> int \<times> int list \<times> int list" where
  "fitSize_init sel [] n = (n, [], [])"
| "fitSize_init sel (t # ts) n =
     (case sel t of (s, m) \<Rightarrow>
        (case fitSize_init sel ts (n - s) of (n', sz, mx) \<Rightarrow> (n', s # sz, m # mx)))"

text \<open>
  One pass of the inner loop over \<open>max\<close>, reading and writing \<open>sz[i]\<close> at the same index:
  \<^verbatim>\<open>for i, max := range max { if sz[i] == max { continue }; more = true; sz[i]++; n-- }\<close>
  The pass does not look at \<open>n\<close>. Both slices are made with \<open>len(t)\<close> elements, so the
  third equation (a \<open>max\<close> longer than \<open>sz\<close>) is never reached from \<open>fitSize\<close>.
\<close>

fun fitSize_pass :: "int list \<Rightarrow> int list \<Rightarrow> int \<Rightarrow> bool \<Rightarrow> int list \<times> int \<times> bool" where
  "fitSize_pass [] sz n more = (sz, n, more)"
| "fitSize_pass (m # mx) (s # sz) n more =
     (if s = m
      then (case fitSize_pass mx sz n more of (sz', r) \<Rightarrow> (s # sz', r))
      else (case fitSize_pass mx sz (n - 1) True of (sz', r) \<Rightarrow> ((s + 1) # sz', r)))"
| "fitSize_pass (m # mx) [] n more = ([], n, more)"

lemma fitSize_pass_length: "length (fst (fitSize_pass mx sz n more)) = length sz"
  by (induction mx sz n more rule: fitSize_pass.induct) (auto split: prod.splits)

lemma fitSize_pass_budget:
  "fitSize_pass mx sz n more = (sz', n', more') \<Longrightarrow>
     n' \<le> n \<and> (more' \<and> \<not> more \<longrightarrow> n' < n) \<and> (more \<longrightarrow> more')"
proof (induction mx sz n more arbitrary: sz' n' more' rule: fitSize_pass.induct)
  case (2 m mx s sz n more)
  show ?case
  proof (cases "s = m")
    case True
    with 2 show ?thesis by (auto split: prod.splits)
  next
    case False
    with 2 show ?thesis by (fastforce split: prod.splits)
  qed
qed auto

lemma fitSize_pass_more: "(sz', n', True) = fitSize_pass mx sz n False \<Longrightarrow> n' < n"
  using fitSize_pass_budget [of mx sz n False sz' n' True] by simp

text \<open>
  The outer loop:
  \<^verbatim>\<open>more := true; for n > 0 && more { more = false; <pass> }\<close>
  A pass that sets \<open>more\<close> has lowered \<open>n\<close>, and a pass that leaves \<open>more\<close> false ends the
  loop: that is the termination argument.
\<close>

function fitSize_loop :: "int list \<Rightarrow> int \<Rightarrow> bool \<Rightarrow> int list \<Rightarrow> int list" where
  "fitSize_loop mx n more sz =
     (if n > 0 \<and> more
      then (case fitSize_pass mx sz n False of (sz', n', more') \<Rightarrow> fitSize_loop mx n' more' sz')
      else sz)"
  by pat_completeness auto
termination
  by (relation "measure (\<lambda>(mx, n, more, sz). if more then nat n + 1 else 0)")
     (auto dest: fitSize_pass_more)

declare fitSize_loop.simps [simp del]

text \<open>\<open>fitSize\<close> itself: the two allocations, the first loop, the growth loop, \<open>return sz\<close>.\<close>

definition fitSize :: "int \<Rightarrow> 'a list \<Rightarrow> ('a \<Rightarrow> int \<times> int) \<Rightarrow> int list" where
  "fitSize n t sel =
     (case fitSize_init sel t n of (n', sz, mx) \<Rightarrow> fitSize_loop mx n' True sz)"

section \<open>The terminal backend and the pen\<close>

text \<open>
  The backend is the package \<open>termbox\<close>, which is not part of the repository. The code
  uses \<open>termbox.Size()\<close>, the width and height of the terminal, and
  \<open>termbox.CellBuffer()\<close>, the slice of cells of the back buffer, in row-major order;
  \<open>termbox\<close> allocates it with \<open>make([]Cell, width*height)\<close>, so its capacity is its
  length. A \<open>termbox.Cell\<close> is a rune with a foreground and a background attribute, a
  \<open>termbox.Attribute\<close> is a \<open>uint16\<close>, and a rune is an \<open>int32\<close> code point.
  The state of the backend is passed explicitly through every operation that paints.
\<close>

type_synonym attribute = "16 word"
type_synonym rune = int

record cell =
  Ch :: rune
  Fg :: attribute
  Bg :: attribute

record termbox =
  tb_width :: int
  tb_height :: int
  tb_cells :: "cell list"

text \<open>
  \<^verbatim>\<open>type Pen struct { x, y, w, h int; dx, dy int; fg, bg termbox.Attribute }\<close>
  The fields \<open>x, y, w, h\<close> describe "the area the pen can draw in (the clip)", \<open>dx, dy\<close>
  are the cursor inside it. The methods take a \<open>*Pen\<close>, which may be \<open>nil\<close>: a pen
  pointer is a \<open>pen option\<close>. A pen is only reached through the one pointer that the
  caller holds, so a method that changes the pen returns the changed pen.
\<close>

record pen =
  pen_x :: int
  pen_y :: int
  pen_w :: int
  pen_h :: int
  pen_dx :: int
  pen_dy :: int
  pen_fg :: attribute
  pen_bg :: attribute

text \<open>
  Indexing a slice outside its length and slicing outside its capacity are run-time panics
  in Go. Nothing in the package recovers from them. A panic is kept as a value together
  with the state of the backend at that moment.
\<close>

datatype panic = IndexOutOfRange | SliceBoundsOutOfRange

type_synonym 'a outcome = "(panic \<times> termbox) + 'a"

section \<open>Operations of the pen\<close>

text \<open>
  \<open>Clip\<close> returns \<open>nil\<close> for a \<open>nil\<close> receiver, otherwise it makes a new pen whose origin
  is the receiver's origin moved by \<open>(x, y)\<close> and whose extent is \<open>(w, h)\<close>, and then
  goes through the \<open>switch\<close> in the order of its cases. The new pen has cursor \<open>(0, 0)\<close>
  and copies \<open>fg\<close> and \<open>bg\<close>.
\<close>

fun Clip :: "pen option \<Rightarrow> int \<Rightarrow> int \<Rightarrow> int \<Rightarrow> int \<Rightarrow> pen option" where
  "Clip None x y w h = None"
| "Clip (Some p) x y w h =
     (let ox = pen_x p + x; oy = pen_y p + y; ow = w; oh = h in
      if ox < 0 then None
      else if oy < 0 then None
      else if ow < 0 then None
      else if oh < 0 then None
      else if ox + ow > pen_x p + pen_w p then None
      else if oy + oh > pen_y p + pen_h p then None
      else Some \<lparr>pen_x = ox, pen_y = oy, pen_w = ow, pen_h = oh, pen_dx = 0, pen_dy = 0,
                 pen_fg = pen_fg p, pen_bg = pen_bg p\<rparr>)"

text \<open>
  \<open>Clear\<close>:
  \<^verbatim>\<open>for y := 0; y < p.h; y++ { b := buf[y*sw+p.x:]; for x := 0; x < p.w; x++ { b[x] = cell } }\<close>
  \<open>Clear_row\<close> is the inner loop on the slice \<open>b\<close> that starts at offset \<open>off\<close> of the
  buffer, \<open>Clear_rows\<close> the outer loop. After the loops the cursor is reset.
\<close>

function Clear_row :: "cell \<Rightarrow> int \<Rightarrow> int \<Rightarrow> int \<Rightarrow> cell list \<Rightarrow> panic \<times> cell list + cell list" where
  "Clear_row c off w x cs =
     (if x < w
      then (if x < 0 \<or> int (length cs) - off \<le> x then Inl (IndexOutOfRange, cs)
            else Clear_row c off w (x + 1) (cs[nat (off + x) := c]))
      else Inr cs)"
  by pat_completeness auto
termination
  by (relation "measure (\<lambda>(c, off, w, x, cs). nat (w - x))") auto

function Clear_rows :: "pen \<Rightarrow> cell \<Rightarrow> int \<Rightarrow> int \<Rightarrow> cell list \<Rightarrow> panic \<times> cell list + cell list" where
  "Clear_rows p c sw y cs =
     (if y < pen_h p
      then (let off = y * sw + pen_x p in
            if off < 0 \<or> int (length cs) < off then Inl (SliceBoundsOutOfRange, cs)
            else (case Clear_row c off (pen_w p) 0 cs of
                    Inl e \<Rightarrow> Inl e
                  | Inr cs' \<Rightarrow> Clear_rows p c sw (y + 1) cs'))
      else Inr cs)"
  by pat_completeness auto
termination
  by (relation "measure (\<lambda>(p, c, sw, y, cs). nat (pen_h p - y))") auto

declare Clear_row.simps [simp del] Clear_rows.simps [simp del]

fun Clear :: "pen option \<Rightarrow> termbox \<Rightarrow> (pen option \<times> termbox) outcome" where
  "Clear None tb = Inr (None, tb)"
| "Clear (Some p) tb =
     (let buf = tb_cells tb; sw = tb_width tb;
          cell = \<lparr>Ch = 32, Fg = pen_fg p, Bg = pen_bg p\<rparr> in
      case Clear_rows p cell sw 0 buf of
        Inl (e, cs) \<Rightarrow> Inl (e, tb\<lparr>tb_cells := cs\<rparr>)
      | Inr cs \<Rightarrow> Inr (Some (p\<lparr>pen_dx := 0, pen_dy := 0\<rparr>), tb\<lparr>tb_cells := cs\<rparr>))"

fun Width :: "pen option \<Rightarrow> int" where
  "Width None = 0"
| "Width (Some p) = pen_w p"

fun Height :: "pen option \<Rightarrow> int" where
  "Height None = 0"
| "Height (Some p) = pen_h p"

fun SetFg :: "pen option \<Rightarrow> attribute \<Rightarrow> pen option" where
  "SetFg None fg = None"
| "SetFg (Some p) fg = Some (p\<lparr>pen_fg := fg\<rparr>)"

fun SetBg :: "pen option \<Rightarrow> attribute \<Rightarrow> pen option" where
  "SetBg None bg = None"
| "SetBg (Some p) bg = Some (p\<lparr>pen_bg := bg\<rparr>)"

section \<open>Strings and runes\<close>

text \<open>
  A Go string is a sequence of bytes, here a \<open>string\<close> (a list of 8-bit characters);
  \<open>len(s)\<close> is the number of bytes. \<open>for i, r := range s\<close> decodes UTF-8: \<open>i\<close> is the
  byte index at which the rune \<open>r\<close> starts, and a byte that does not start a valid
  encoding yields \<open>U+FFFD\<close> and advances one byte. \<open>utf8.RuneCountInString\<close> counts the
  same runes. \<open>utf8_first\<close> gives, for a lead byte of a multi-byte encoding, its length
  and the range accepted for the second byte, as the table \<open>first\<close> of the package
  \<open>unicode/utf8\<close> does; \<open>DecodeRune\<close> returns the rune and its width in bytes.
\<close>

definition RuneError :: rune where
  "RuneError = 0xFFFD"

definition utf8_first :: "nat \<Rightarrow> (nat \<times> nat \<times> nat) option" where
  "utf8_first b =
     (if 0xC2 \<le> b \<and> b \<le> 0xDF then Some (2, 0x80, 0xBF)
      else if b = 0xE0 then Some (3, 0xA0, 0xBF)
      else if b = 0xED then Some (3, 0x80, 0x9F)
      else if 0xE1 \<le> b \<and> b \<le> 0xEF then Some (3, 0x80, 0xBF)
      else if b = 0xF0 then Some (4, 0x90, 0xBF)
      else if 0xF1 \<le> b \<and> b \<le> 0xF3 then Some (4, 0x80, 0xBF)
      else if b = 0xF4 then Some (4, 0x80, 0x8F)
      else None)"

fun DecodeRune :: "nat list \<Rightarrow> rune \<times> nat" where
  "DecodeRune [] = (RuneError, 0)"
| "DecodeRune (b0 # bs) =
     (if b0 < 0x80 then (int b0, 1)
      else case utf8_first b0 of
        None \<Rightarrow> (RuneError, 1)
      | Some (sz, lo, hi) \<Rightarrow>
          if length (b0 # bs) < sz then (RuneError, 1)
          else let b1 = bs ! 0 in
          if b1 < lo \<or> hi < b1 then (RuneError, 1)
          else if sz \<le> 2 then (int ((b0 mod 32) * 64 + b1 mod 64), 2)
          else let b2 = bs ! 1 in
          if b2 < 0x80 \<or> 0xBF < b2 then (RuneError, 1)
          else if sz \<le> 3 then (int ((b0 mod 16) * 4096 + (b1 mod 64) * 64 + b2 mod 64), 3)
          else let b3 = bs ! 2 in
          if b3 < 0x80 \<or> 0xBF < b3 then (RuneError, 1)
          else (int ((b0 mod 8) * 262144 + (b1 mod 64) * 4096 + (b2 mod 64) * 64 + b3 mod 64), 4))"

fun range_bytes :: "int \<Rightarrow> nat list \<Rightarrow> (int \<times> rune) list" where
  "range_bytes i [] = []"
| "range_bytes i (b # bs) =
     (case DecodeRune (b # bs) of (r, k) \<Rightarrow> (i, r) # range_bytes (i + int k) (drop (k - 1) bs))"

definition range_string :: "string \<Rightarrow> (int \<times> rune) list" where
  "range_string s = range_bytes 0 (map of_char s)"

definition RuneCountInString :: "string \<Rightarrow> int" where
  "RuneCountInString s = int (length (range_string s))"

section \<open>Printing\<close>

text \<open>
  The loop of \<open>printRow\<close>, \<open>for i, r := range s { row[i] = termbox.Cell{...} }\<close>, on the
  slice \<open>row\<close> that starts at offset \<open>off\<close> of the buffer and has length \<open>rlen\<close>: the
  index \<open>i\<close> is the byte index that \<open>range\<close> yields.
\<close>

fun write_row :: "(int \<times> rune) list \<Rightarrow> int \<Rightarrow> int \<Rightarrow> (rune \<Rightarrow> cell) \<Rightarrow> cell list \<Rightarrow> panic \<times> cell list + cell list" where
  "write_row [] off rlen mk cs = Inr cs"
| "write_row ((i, r) # rest) off rlen mk cs =
     (if i < 0 \<or> rlen \<le> i then Inl (IndexOutOfRange, cs)
      else write_row rest off rlen mk (cs[nat (off + i) := mk r]))"

text \<open>
  \<open>printRow\<close> after its \<open>nil\<close> check:
  \<^verbatim>\<open>row := termbox.CellBuffer()[x+y*stride:]; row = row[:p.w-p.dx]\<close>
  \<^verbatim>\<open>ct := utf8.RuneCountInString(s); if len(row) < ct { s = s[:ct] }\<close>
  The string is cut to \<open>ct\<close> bytes, the number of its runes, not to the length of the row.
  The result is \<open>len(row)\<close>, and \<open>p.dx\<close> grows by it.
\<close>

definition printRow_at :: "pen \<Rightarrow> string \<Rightarrow> termbox \<Rightarrow> (int \<times> pen \<times> termbox) outcome" where
  "printRow_at p s tb =
     (let stride = tb_width tb; x = pen_dx p + pen_x p; y = pen_dy p + pen_y p;
          buf = tb_cells tb; off = x + y * stride in
      if off < 0 \<or> int (length buf) < off then Inl (SliceBoundsOutOfRange, tb)
      else let rlen = pen_w p - pen_dx p in
      if rlen < 0 \<or> int (length buf) - off < rlen then Inl (SliceBoundsOutOfRange, tb)
      else let ct = RuneCountInString s;
               s' = (if rlen < ct then take (nat ct) s else s) in
      case write_row (range_string s') off rlen
             (\<lambda>r. \<lparr>Ch = r, Fg = pen_fg p, Bg = pen_bg p\<rparr>) buf of
        Inl (e, cs) \<Rightarrow> Inl (e, tb\<lparr>tb_cells := cs\<rparr>)
      | Inr cs \<Rightarrow> Inr (rlen, p\<lparr>pen_dx := pen_dx p + rlen\<rparr>, tb\<lparr>tb_cells := cs\<rparr>))"

fun printRow :: "pen option \<Rightarrow> string \<Rightarrow> termbox \<Rightarrow> (int \<times> pen option \<times> termbox) outcome" where
  "printRow None s tb = Inr (0, None, tb)"
| "printRow (Some p) s tb =
     (case printRow_at p s tb of
        Inl e \<Rightarrow> Inl e
      | Inr (k, p', tb') \<Rightarrow> Inr (k, Some p', tb'))"

lemma printRow_at_pen:
  "printRow_at p s tb = Inr (k, p', tb') \<Longrightarrow> p' = p\<lparr>pen_dx := pen_dx p + k\<rparr>"
  by (auto simp: printRow_at_def Let_def split: if_splits sum.splits prod.splits)

text \<open>
  \<open>Print\<close>:
  \<^verbatim>\<open>n := 0; for n < len(s) && p.dy < p.h { n += p.printRow(s[n:]); p.dx = 0; p.dy++ }\<close>
  The receiver is not \<open>nil\<close> inside the loop. Every round moves the cursor one row down,
  so the loop ends when the rows of the pen are used up. \<open>Println\<close> calls \<open>Print\<close> on
  its receiver, which is not \<open>nil\<close> there, and then moves the cursor to the start of the
  next row.
\<close>

function Print_loop :: "string \<Rightarrow> int \<Rightarrow> pen \<Rightarrow> termbox \<Rightarrow> (pen \<times> termbox) outcome" where
  "Print_loop s n p tb =
     (if n < int (length s) \<and> pen_dy p < pen_h p
      then (case printRow_at p (drop (nat n) s) tb of
              Inl e \<Rightarrow> Inl e
            | Inr (k, p', tb') \<Rightarrow>
                Print_loop s (n + k) (p'\<lparr>pen_dx := 0, pen_dy := pen_dy p' + 1\<rparr>) tb')
      else Inr (p, tb))"
  by pat_completeness auto
termination
  by (relation "measure (\<lambda>(s, n, p, tb). nat (pen_h p - pen_dy p))")
     (auto dest!: printRow_at_pen)

declare Print_loop.simps [simp del]

fun Print :: "pen option \<Rightarrow> string \<Rightarrow> termbox \<Rightarrow> (pen option \<times> termbox) outcome" where
  "Print None s tb = Inr (None, tb)"
| "Print (Some p) s tb =
     (case Print_loop s 0 p tb of
        Inl e \<Rightarrow> Inl e
      | Inr (p', tb') \<Rightarrow> Inr (Some p', tb'))"

fun Println :: "pen option \<Rightarrow> string \<Rightarrow> termbox \<Rightarrow> (pen option \<times> termbox) outcome" where
  "Println None s tb = Inr (None, tb)"
| "Println (Some p) s tb =
     (case Print_loop s 0 p tb of
        Inl e \<Rightarrow> Inl e
      | Inr (p', tb') \<Rightarrow> Inr (Some (p'\<lparr>pen_dx := 0, pen_dy := pen_dy p' + 1\<rparr>), tb'))"

section \<open>Widgets\<close>

text \<open>
  The implementations of the interface \<open>Widget\<close>: \<open>Label\<close> is a string, \<open>Blank\<close> has the
  fields \<open>MinWidth, MaxWidth, MinHeight, MaxHeight\<close>, \<open>Tint\<close> the fields \<open>Fg, Bg\<close> and a
  widget, \<open>Row\<close> and \<open>Column\<close> are slices of widgets and \<open>Grid\<close> is a slice of rows. A
  widget of this type is never \<open>nil\<close>.
\<close>

datatype widget =
    Label string
  | Blank int int int int
  | Tint attribute attribute widget
  | Row "widget list"
  | Column "widget list"
  | Grid "widget list list"

lemma size_list_member: "x \<in> set xs \<Longrightarrow> f x < size_list f xs"
  by (induction xs) auto

text \<open>
  Addition on Go's \<open>int\<close>, of 64 bits, wraps around in two's complement: the result
  of \<open>a + b\<close> is \<open>wrap64 (a + b)\<close>, the integer of the range from \<open>-2^63\<close> to
  \<open>2^63 - 1\<close> that differs from the sum by a multiple of \<open>2^64\<close>.
\<close>

definition wrap64 :: "int \<Rightarrow> int" where
  "wrap64 v = (v + 9223372036854775808) mod 18446744073709551616 - 9223372036854775808"

text \<open>
  \<open>ReqWidth\<close> and \<open>ReqHeight\<close>, one equation per implementation. The named results
  \<open>min\<close> and \<open>max\<close> start at 0 and the loops over the elements update them, \<open>+=\<close> with
  wrap-around; \<open>len(t)\<close> of a \<open>Label\<close> is its number of bytes. \<open>Grid.ReqWidth\<close> calls
  \<open>Row.ReqWidth\<close> on every row and adds \<open>len(t)\<close>, the number of rows, to both results.
\<close>

function ReqWidth :: "widget \<Rightarrow> int \<times> int" where
  "ReqWidth (Label t) = (int (length t), int (length t))"
| "ReqWidth (Blank MinWidth MaxWidth MinHeight MaxHeight) = (MinWidth, MaxWidth)"
| "ReqWidth (Tint fg bg w) = ReqWidth w"
| "ReqWidth (Row t) =
     fold (\<lambda>w (mn, mx). case ReqWidth w of (m, n) \<Rightarrow>
             (wrap64 (mn + m), wrap64 (mx + n))) t (0, 0)"
| "ReqWidth (Column t) =
     fold (\<lambda>t (mn, mx). case ReqWidth t of (m, n) \<Rightarrow>
             (if m > mn then m else mn, if n > mx then n else mx)) t (0, 0)"
| "ReqWidth (Grid t) =
     (case fold (\<lambda>row (mn, mx). case ReqWidth (Row row) of (n, x) \<Rightarrow>
                   (if n > mn then n else mn, if x > mx then x else mx)) t (0, 0) of
        (mn, mx) \<Rightarrow> (wrap64 (mn + int (length t)), wrap64 (mx + int (length t))))"
  by pat_completeness auto
termination
  by (relation "measure size") (auto simp: less_Suc_eq_le dest: size_list_member [where f = size] size_list_member [where f = "size_list size"])

function ReqHeight :: "widget \<Rightarrow> int \<times> int" where
  "ReqHeight (Label t) = (1, 1)"
| "ReqHeight (Blank MinWidth MaxWidth MinHeight MaxHeight) = (MinHeight, MaxHeight)"
| "ReqHeight (Tint fg bg w) = ReqHeight w"
| "ReqHeight (Row t) =
     fold (\<lambda>t (mn, mx). case ReqHeight t of (m, n) \<Rightarrow>
             (if m > mn then m else mn, if n > mx then n else mx)) t (0, 0)"
| "ReqHeight (Column t) =
     fold (\<lambda>w (mn, mx). case ReqHeight w of (m, n) \<Rightarrow>
             (wrap64 (mn + m), wrap64 (mx + n))) t (0, 0)"
| "ReqHeight (Grid t) =
     fold (\<lambda>row (mn, mx). case ReqHeight (Row row) of (n, x) \<Rightarrow>
             (wrap64 (mn + n), wrap64 (mx + x))) t (0, 0)"
  by pat_completeness auto
termination
  by (relation "measure size") (auto simp: less_Suc_eq_le dest: size_list_member [where f = size] size_list_member [where f = "size_list size"])

text \<open>
  The first half of \<open>Grid.Draw\<close>: \<open>cols\<close> is the length of the longest row, \<open>w[j]\<close>
  the largest minimum width in column \<open>j\<close> and \<open>h[i]\<close> the largest minimum height in row
  \<open>i\<close>; both slices start filled with 0.
\<close>

definition Grid_cols :: "widget list list \<Rightarrow> nat" where
  "Grid_cols t = fold (\<lambda>row cols. if length row > cols then length row else cols) t 0"

fun Grid_measure_cells :: "nat \<Rightarrow> widget list \<Rightarrow> nat \<Rightarrow> int list \<times> int list \<Rightarrow> int list \<times> int list" where
  "Grid_measure_cells i [] j (w, h) = (w, h)"
| "Grid_measure_cells i (t # row) j (w, h) =
     (let n = fst (ReqWidth t);
          w' = (if n > w ! j then w[j := n] else w);
          n' = fst (ReqHeight t);
          h' = (if n' > h ! i then h[i := n'] else h)
      in Grid_measure_cells i row (j + 1) (w', h'))"

fun Grid_measure_rows :: "widget list list \<Rightarrow> nat \<Rightarrow> int list \<times> int list \<Rightarrow> int list \<times> int list" where
  "Grid_measure_rows [] i wh = wh"
| "Grid_measure_rows (row # t) i wh = Grid_measure_rows t (i + 1) (Grid_measure_cells i row 0 wh)"

text \<open>
  The method \<open>Draw\<close> of the widgets (not the function \<open>Draw\<close> of the package, which
  clears and flushes the terminal around it), with the loops of \<open>Row.Draw\<close>,
  \<open>Column.Draw\<close> and \<open>Grid.Draw\<close> that call it on every element. The pen that \<open>Clip\<close> derives for a child
  is dropped after the child is drawn; only the backend keeps what the child painted.
  \<open>fitSize\<close> returns as many sizes as there are widgets, so \<open>sz[i]\<close> is in range.
\<close>

function (sequential) Draw :: "widget \<Rightarrow> pen option \<Rightarrow> termbox \<Rightarrow> (pen option \<times> termbox) outcome"
  and Row_Draw_loop :: "widget list \<Rightarrow> nat \<Rightarrow> int list \<Rightarrow> int \<Rightarrow> int \<Rightarrow> pen option \<Rightarrow> termbox \<Rightarrow> termbox outcome"
  and Column_Draw_loop :: "widget list \<Rightarrow> nat \<Rightarrow> int list \<Rightarrow> int \<Rightarrow> int \<Rightarrow> pen option \<Rightarrow> termbox \<Rightarrow> termbox outcome"
  and Grid_Draw_rows :: "widget list list \<Rightarrow> nat \<Rightarrow> int list \<Rightarrow> int list \<Rightarrow> int \<Rightarrow> pen option \<Rightarrow> termbox \<Rightarrow> termbox outcome"
  and Grid_Draw_cells :: "widget list \<Rightarrow> nat \<Rightarrow> int list \<Rightarrow> int \<Rightarrow> int \<Rightarrow> int \<Rightarrow> pen option \<Rightarrow> termbox \<Rightarrow> termbox outcome"
where
  "Draw (Label t) p tb = Print p t tb"
| "Draw (Blank MinWidth MaxWidth MinHeight MaxHeight) p tb = Inr (p, tb)"
| "Draw (Tint fg bg w) p tb =
     (let p1 = (if fg \<noteq> 0 then SetFg p fg else p);
          p2 = (if bg \<noteq> 0 then SetBg p1 bg else p1)
      in Draw w p2 tb)"
| "Draw (Row t) p tb =
     (let w = Width p; h = Height p; sz = fitSize w t ReqWidth in
      case Row_Draw_loop t 0 sz 0 h p tb of
        Inl e \<Rightarrow> Inl e
      | Inr tb' \<Rightarrow> Inr (p, tb'))"
| "Draw (Column t) p tb =
     (let w = Width p; h = Height p; sz = fitSize h t ReqHeight in
      case Column_Draw_loop t 0 sz 0 w p tb of
        Inl e \<Rightarrow> Inl e
      | Inr tb' \<Rightarrow> Inr (p, tb'))"
| "Draw (Grid t) p tb =
     (let cols = Grid_cols t;
          (w, h) = Grid_measure_rows t 0 (replicate cols 0, replicate (length t) 0)
      in case Grid_Draw_rows t 0 w h 0 p tb of
        Inl e \<Rightarrow> Inl e
      | Inr tb' \<Rightarrow> Inr (p, tb'))"
| "Row_Draw_loop [] i sz x h p tb = Inr tb"
| "Row_Draw_loop (t # ts) i sz x h p tb =
     (let tw = sz ! i in
      case Draw t (Clip p x 0 tw h) tb of
        Inl e \<Rightarrow> Inl e
      | Inr (q, tb') \<Rightarrow> Row_Draw_loop ts (i + 1) sz (x + tw) h p tb')"
| "Column_Draw_loop [] i sz y w p tb = Inr tb"
| "Column_Draw_loop (t # ts) i sz y w p tb =
     (let th = sz ! i in
      case Draw t (Clip p 0 y w th) tb of
        Inl e \<Rightarrow> Inl e
      | Inr (q, tb') \<Rightarrow> Column_Draw_loop ts (i + 1) sz (y + th) w p tb')"
| "Grid_Draw_rows [] i w h y p tb = Inr tb"
| "Grid_Draw_rows (row # t) i w h y p tb =
     (case Grid_Draw_cells row 0 w 0 y (h ! i) p tb of
        Inl e \<Rightarrow> Inl e
      | Inr tb' \<Rightarrow> Grid_Draw_rows t (i + 1) w h (y + h ! i) p tb')"
| "Grid_Draw_cells [] j w x y hi p tb = Inr tb"
| "Grid_Draw_cells (t # row) j w x y hi p tb =
     (case Draw t (Clip p x y (w ! j) hi) tb of
        Inl e \<Rightarrow> Inl e
      | Inr (q, tb') \<Rightarrow> Grid_Draw_cells row (j + 1) w (x + (w ! j + 1)) y hi p tb')"
  by pat_completeness auto

termination
  by (relation "measure (\<lambda>x. case x of
          Inl (Inl (w, r)) \<Rightarrow> size w
        | Inl (Inr (ts, r)) \<Rightarrow> size_list size ts
        | Inr (Inl (ts, r)) \<Rightarrow> size_list size ts
        | Inr (Inr (Inl (rows, r))) \<Rightarrow> size_list (size_list size) rows
        | Inr (Inr (Inr (row, r))) \<Rightarrow> size_list size row)") simp_all

section \<open>Specification-side notions\<close>

text \<open>
  The rectangle of the pen \<open>q\<close> lies inside the rectangle of the pen \<open>p\<close>.
\<close>

definition pen_within :: "pen \<Rightarrow> pen \<Rightarrow> bool" where
  "pen_within q p =
     (pen_x p \<le> pen_x q \<and> pen_y p \<le> pen_y q \<and>
      pen_x q + pen_w q \<le> pen_x p + pen_w p \<and>
      pen_y q + pen_h q \<le> pen_y p + pen_h p)"

text \<open>
  A sequence of clip derivations: each request \<open>(x, y, w, h)\<close> is applied to the pen that
  the one before it returned.
\<close>

fun Clips :: "pen option \<Rightarrow> (int \<times> int \<times> int \<times> int) list \<Rightarrow> pen option" where
  "Clips p [] = p"
| "Clips p ((x, y, w, h) # rs) = Clips (Clip p x y w h) rs"

text \<open>
  The indices, in a buffer of row length \<open>stride\<close>, of the cells of the rectangle of a pen.
\<close>

definition pen_cells :: "pen \<Rightarrow> int \<Rightarrow> nat set" where
  "pen_cells p stride =
     {j. \<exists>c r. pen_x p \<le> c \<and> c < pen_x p + pen_w p \<and>
               pen_y p \<le> r \<and> r < pen_y p + pen_h p \<and> j = nat (c + r * stride)}"

text \<open>
  The backend is well formed when its buffer has one cell for every position of the
  terminal, and a pen is on the screen when its rectangle lies inside the terminal.
\<close>

definition backend_ok :: "termbox \<Rightarrow> bool" where
  "backend_ok tb =
     (0 \<le> tb_width tb \<and> 0 \<le> tb_height tb \<and>
      int (length (tb_cells tb)) = tb_width tb * tb_height tb)"

definition pen_on_screen :: "pen \<Rightarrow> termbox \<Rightarrow> bool" where
  "pen_on_screen p tb =
     (0 \<le> pen_x p \<and> 0 \<le> pen_y p \<and> 0 \<le> pen_w p \<and> 0 \<le> pen_h p \<and>
      pen_x p + pen_w p \<le> tb_width tb \<and> pen_y p + pen_h p \<le> tb_height tb)"

text \<open>
  The cells after the stores \<open>row[i] = mk r\<close> for the pairs \<open>(i, r)\<close> of a list, on the row
  that starts at offset \<open>off\<close>, when no index is out of range.
\<close>

fun paint :: "(int \<times> rune) list \<Rightarrow> int \<Rightarrow> (rune \<Rightarrow> cell) \<Rightarrow> cell list \<Rightarrow> cell list" where
  "paint [] off mk cs = cs"
| "paint ((i, r) # rest) off mk cs = paint rest off mk (cs[nat (off + i) := mk r])"

text \<open>
  The width requirement of a \<open>Grid\<close> as the specification words it: the maximum over the
  rows of the row's minimum (and of its maximum), plus the number of rows.
\<close>

definition Grid_ReqWidth_claimed :: "widget list list \<Rightarrow> int \<times> int" where
  "Grid_ReqWidth_claimed t =
     (Max (set (map (fst \<circ> ReqWidth \<circ> Row) t)) + int (length t),
      Max (set (map (snd \<circ> ReqWidth \<circ> Row) t)) + int (length t))"

section \<open>Properties of \<open>fitSize\<close>\<close>

lemma fitSize_init_eq:
  "fitSize_init sel t n = (n - sum_list (map (fst \<circ> sel) t), map (fst \<circ> sel) t, map (snd \<circ> sel) t)"
  by (induction t arbitrary: n) (auto split: prod.splits)

lemma fitSize_loop_stop: "\<not> (n > 0 \<and> mo) \<Longrightarrow> fitSize_loop mx n mo sz = sz"
  by (subst fitSize_loop.simps) auto

lemma fitSize_loop_step:
  "n > 0 \<Longrightarrow> mo \<Longrightarrow> fitSize_pass mx sz n False = (sz', n', mo') \<Longrightarrow>
     fitSize_loop mx n mo sz = fitSize_loop mx n' mo' sz'"
  by (subst fitSize_loop.simps) simp

lemma fitSize_loop_length: "length (fitSize_loop mx n mo sz) = length sz"
proof (induction mx n mo sz rule: fitSize_loop.induct)
  case (1 mx n mo sz)
  show ?case
  proof (cases "n > 0 \<and> mo")
    case True
    obtain sz' n' mo' where p: "fitSize_pass mx sz n False = (sz', n', mo')"
      by (cases "fitSize_pass mx sz n False") auto
    have "length sz' = length sz" using fitSize_pass_length [of mx sz n False] p by simp
    with 1 [OF True p [symmetric] refl] fitSize_loop_step [OF _ _ p] True show ?thesis
      by simp
  next
    case False
    then show ?thesis by (simp add: fitSize_loop_stop)
  qed
qed

lemma fitSize_pass_sum:
  "length mx = length sz \<Longrightarrow> fitSize_pass mx sz n mo = (sz', n', mo') \<Longrightarrow>
     sum_list sz' + n' = sum_list sz + n \<and> n - int (length sz) \<le> n'"
proof (induction mx sz n mo arbitrary: sz' n' mo' rule: fitSize_pass.induct)
  case (2 m mx s sz n mo)
  show ?case
  proof (cases "s = m")
    case True
    with 2 show ?thesis by (fastforce split: prod.splits)
  next
    case False
    with 2 show ?thesis by (fastforce split: prod.splits)
  qed
qed auto

lemma fitSize_pass_bounds:
  "list_all2 (\<le>) sz mx \<Longrightarrow> fitSize_pass mx sz n mo = (sz', n', mo') \<Longrightarrow>
     list_all2 (\<le>) sz sz' \<and> list_all2 (\<le>) sz' mx"
proof (induction mx sz n mo arbitrary: sz' n' mo' rule: fitSize_pass.induct)
  case (2 m mx s sz n mo)
  show ?case
  proof (cases "s = m")
    case True
    with 2 show ?thesis by (fastforce split: prod.splits)
  next
    case False
    with 2 show ?thesis by (fastforce split: prod.splits)
  qed
qed auto

lemma fitSize_pass_done:
  "length mx = length sz \<Longrightarrow> fitSize_pass mx sz n mo = (sz', n', False) \<Longrightarrow> sz' = mx"
proof (induction mx sz n mo arbitrary: sz' n' rule: fitSize_pass.induct)
  case (2 m mx s sz n mo)
  show ?case
  proof (cases "s = m")
    case True
    with 2 show ?thesis by (fastforce split: prod.splits)
  next
    case False
    with 2 fitSize_pass_budget [of mx sz "n - 1" True] show ?thesis
      by (fastforce split: prod.splits)
  qed
qed auto

lemma list_all2_le_trans:
  "list_all2 (\<le>) (xs :: int list) ys \<Longrightarrow> list_all2 (\<le>) ys zs \<Longrightarrow> list_all2 (\<le>) xs zs"
  using list_all2_trans [of "(\<le>)" "(\<le>)" "(\<le>)" xs ys zs] by auto

lemma fitSize_loop_bounds:
  "list_all2 (\<le>) sz mx \<Longrightarrow>
     list_all2 (\<le>) sz (fitSize_loop mx n mo sz) \<and> list_all2 (\<le>) (fitSize_loop mx n mo sz) mx"
proof (induction mx n mo sz rule: fitSize_loop.induct)
  case (1 mx n mo sz)
  show ?case
  proof (cases "n > 0 \<and> mo")
    case True
    obtain sz' n' mo' where p: "fitSize_pass mx sz n False = (sz', n', mo')"
      by (cases "fitSize_pass mx sz n False") auto
    from fitSize_pass_bounds [OF "1.prems" p]
    have b: "list_all2 (\<le>) sz sz'" "list_all2 (\<le>) sz' mx" by simp_all
    from "1.IH" [OF True p [symmetric] refl b(2)]
    have ih: "list_all2 (\<le>) sz' (fitSize_loop mx n' mo' sz')"
      "list_all2 (\<le>) (fitSize_loop mx n' mo' sz') mx" by simp_all
    have eq: "fitSize_loop mx n mo sz = fitSize_loop mx n' mo' sz'"
      using fitSize_loop_step [OF _ _ p] True by simp
    show ?thesis unfolding eq using ih list_all2_le_trans [OF b(1) ih(1)] by simp
  next
    case False
    then show ?thesis using "1.prems" by (simp add: fitSize_loop_stop list_all2_refl)
  qed
qed

lemma fitSize_loop_sum:
  "length mx = length sz \<Longrightarrow> 0 \<le> n \<Longrightarrow> (\<not> mo \<longrightarrow> sz = mx) \<Longrightarrow>
   sum_list sz + n \<le> sum_list mx \<Longrightarrow>
     sum_list sz + n \<le> sum_list (fitSize_loop mx n mo sz) \<and>
     sum_list (fitSize_loop mx n mo sz) < sum_list sz + n + max 1 (int (length sz))"
proof (induction mx n mo sz rule: fitSize_loop.induct)
  case (1 mx n mo sz)
  show ?case
  proof (cases "n > 0 \<and> mo")
    case True
    obtain sz' n' mo' where p: "fitSize_pass mx sz n False = (sz', n', mo')"
      by (cases "fitSize_pass mx sz n False") auto
    have len: "length sz' = length sz" using fitSize_pass_length [of mx sz n False] p by simp
    from fitSize_pass_sum [OF "1.prems"(1) p]
    have s: "sum_list sz' + n' = sum_list sz + n" "n - int (length sz) \<le> n'" by simp_all
    have eq: "fitSize_loop mx n mo sz = fitSize_loop mx n' mo' sz'"
      using fitSize_loop_step [OF _ _ p] True by simp
    show ?thesis
    proof (cases "0 \<le> n'")
      case True
      have d: "\<not> mo' \<longrightarrow> sz' = mx"
        using fitSize_pass_done [OF "1.prems"(1), of n False sz' n'] p by auto
      from "1.IH" [OF \<open>0 < n \<and> mo\<close> p [symmetric] refl _ True d] len "1.prems" s
      show ?thesis unfolding eq by simp
    next
      case False
      then have "fitSize_loop mx n' mo' sz' = sz'" by (simp add: fitSize_loop_stop)
      with s False True show ?thesis unfolding eq by simp
    qed
  next
    case False
    with "1.prems" have "n = 0" by auto
    with False show ?thesis by (simp add: fitSize_loop_stop)
  qed
qed

text \<open>A budget that does not exceed the sum of the minimums leaves every minimum as it is.\<close>

lemma fitSize_small_budget:
  "n \<le> sum_list (map (fst \<circ> sel) t) \<Longrightarrow> fitSize n t sel = map (fst \<circ> sel) t"
  by (simp add: fitSize_def fitSize_init_eq fitSize_loop_stop)

text \<open>
  What the growth loop guarantees when every minimum is at most its maximum and the budget
  lies between the sum of the minimums and the sum of the maximums: every allocation stays
  within its bounds and the allocations sum to at least the budget, but a pass is always
  run to its end, so the sum may exceed the budget by up to one less than the number of
  participants.
\<close>

lemma fitSize_bounds_and_sum:
  assumes mm: "\<forall>t \<in> set ts. fst (sel t) \<le> snd (sel t)"
    and lo: "sum_list (map (fst \<circ> sel) ts) \<le> n"
    and hi: "n \<le> sum_list (map (snd \<circ> sel) ts)"
  shows "list_all2 (\<le>) (map (fst \<circ> sel) ts) (fitSize n ts sel)"
    and "list_all2 (\<le>) (fitSize n ts sel) (map (snd \<circ> sel) ts)"
    and "n \<le> sum_list (fitSize n ts sel)"
    and "sum_list (fitSize n ts sel) < n + max 1 (int (length ts))"
proof -
  let ?sz = "map (fst \<circ> sel) ts" and ?mx = "map (snd \<circ> sel) ts"
  let ?r = "n - sum_list ?sz"
  have eq: "fitSize n ts sel = fitSize_loop ?mx ?r True ?sz"
    by (simp add: fitSize_def fitSize_init_eq)
  have le: "list_all2 (\<le>) ?sz ?mx"
    using mm by (simp add: list_all2_conv_all_nth)
  from fitSize_loop_bounds [OF le, of ?r True]
  show "list_all2 (\<le>) ?sz (fitSize n ts sel)"
    and "list_all2 (\<le>) (fitSize n ts sel) ?mx"
    unfolding eq by simp_all
  have "sum_list ?sz + ?r \<le> sum_list (fitSize_loop ?mx ?r True ?sz) \<and>
        sum_list (fitSize_loop ?mx ?r True ?sz) < sum_list ?sz + ?r + max 1 (int (length ?sz))"
    by (rule fitSize_loop_sum) (use lo hi in simp_all)
  then show "n \<le> sum_list (fitSize n ts sel)"
    and "sum_list (fitSize n ts sel) < n + max 1 (int (length ts))"
    unfolding eq by simp_all
qed

section \<open>Properties of the pen and of the widgets\<close>

text \<open>A clip with offsets that are not negative stays inside the pen it is taken from.\<close>

lemma Clip_within:
  "0 \<le> x \<Longrightarrow> 0 \<le> y \<Longrightarrow> Clip (Some p) x y w h = Some q \<Longrightarrow> pen_within q p"
  by (auto simp: pen_within_def Let_def split: if_splits)

lemma pen_within_trans: "pen_within r q \<Longrightarrow> pen_within q p \<Longrightarrow> pen_within r p"
  by (auto simp: pen_within_def)

text \<open>
  So a pen derived by any sequence of clips at offsets that are not negative lies inside
  the pen the sequence started from.
\<close>

lemma Clips_None: "Clips None rs = None"
  by (induction rs) auto

lemma pen_within_refl: "pen_within p p"
  by (simp add: pen_within_def)

lemma Clips_within:
  "\<forall>(x, y, w, h) \<in> set rs. 0 \<le> x \<and> 0 \<le> y \<Longrightarrow> Clips (Some p) rs = Some q \<Longrightarrow> pen_within q p"
proof (induction rs arbitrary: p)
  case Nil
  then show ?case by (simp add: pen_within_refl)
next
  case (Cons r rs)
  obtain x y w h where r: "r = (x, y, w, h)" by (cases r)
  with Cons.prems have xy: "0 \<le> x" "0 \<le> y" and rest: "\<forall>(x, y, w, h) \<in> set rs. 0 \<le> x \<and> 0 \<le> y"
    by simp_all
  show ?case
  proof (cases "Clip (Some p) x y w h")
    case None
    with Cons.prems(2) r show ?thesis by (simp add: Clips_None)
  next
    case (Some p1)
    with Cons.prems(2) r have "Clips (Some p1) rs = Some q" by simp
    from Cons.IH [OF rest this] Clip_within [OF xy Some] show ?thesis
      by (rule pen_within_trans)
  qed
qed

text \<open>The two ways through one round of the loop of \<open>Print\<close>.\<close>

lemma Print_loop_stop:
  "\<not> (n < int (length s) \<and> pen_dy p < pen_h p) \<Longrightarrow> Print_loop s n p tb = Inr (p, tb)"
  by (subst Print_loop.simps) auto

lemma Print_loop_step:
  "n < int (length s) \<Longrightarrow> pen_dy p < pen_h p \<Longrightarrow>
     Print_loop s n p tb =
       (case printRow_at p (drop (nat n) s) tb of
          Inl e \<Rightarrow> Inl e
        | Inr (k, p', tb') \<Rightarrow>
            Print_loop s (n + k) (p'\<lparr>pen_dx := 0, pen_dy := pen_dy p' + 1\<rparr>) tb')"
  by (subst Print_loop.simps) simp

lemma Print_loop_cursor:
  "Print_loop s n p tb = Inr (p', tb') \<Longrightarrow>
     pen_dy p \<le> pen_dy p' \<and>
     (n < int (length s) \<and> pen_dy p < pen_h p \<longrightarrow> pen_dx p' = 0 \<and> pen_dy p < pen_dy p')"
proof (induction s n p tb rule: Print_loop.induct)
  case (1 s n p tb)
  show ?case
  proof (cases "n < int (length s) \<and> pen_dy p < pen_h p")
    case False
    with "1.prems" show ?thesis by (simp add: Print_loop_stop)
  next
    case True
    then obtain k q tb1 where r: "printRow_at p (drop (nat n) s) tb = Inr (k, q, tb1)"
      and l: "Print_loop s (n + k) (q\<lparr>pen_dx := 0, pen_dy := pen_dy q + 1\<rparr>) tb1 = Inr (p', tb')"
      using "1.prems" by (auto simp: Print_loop_step split: sum.splits)
    have q: "q = p\<lparr>pen_dx := pen_dx p + k\<rparr>" by (rule printRow_at_pen [OF r])
    let ?q = "q\<lparr>pen_dx := 0, pen_dy := pen_dy q + 1\<rparr>"
    from "1.IH" [OF True r refl refl l]
    have ih: "pen_dy ?q \<le> pen_dy p'"
      "n + k < int (length s) \<and> pen_dy ?q < pen_h ?q \<longrightarrow> pen_dx p' = 0 \<and> pen_dy ?q < pen_dy p'"
      by simp_all
    have dy: "pen_dy p < pen_dy p'" using ih(1) q by simp
    have "pen_dx p' = 0"
    proof (cases "n + k < int (length s) \<and> pen_dy ?q < pen_h ?q")
      case True
      with ih(2) show ?thesis by simp
    next
      case False
      then have "Print_loop s (n + k) ?q tb1 = Inr (?q, tb1)" by (rule Print_loop_stop)
      with l show ?thesis by auto
    qed
    with dy show ?thesis by simp
  qed
qed

text \<open>
  When \<open>Print\<close> returns from a call with a text that is not empty and the cursor row inside
  the height of the pen, the cursor is at column 0 of a later row.
\<close>

lemma Print_cursor_after_return:
  assumes "Print (Some p) s tb = Inr (q, tb')" and "s \<noteq> []" and "pen_dy p < pen_h p"
  shows "\<exists>p'. q = Some p' \<and> pen_dx p' = 0 \<and> pen_dy p < pen_dy p'"
proof -
  from assms(1) obtain p' where l: "Print_loop s 0 p tb = Inr (p', tb')" and q: "q = Some p'"
    by (auto split: sum.splits)
  from assms(2) have "0 < int (length s)" by simp
  with Print_loop_cursor [OF l] assms(3) q show ?thesis by simp
qed

text \<open>
  Runes and their byte indices: every rune takes at least one byte, so the byte indices
  that \<open>range\<close> yields are below the length of the string and the runes are at most as
  many as the bytes.
\<close>

lemma DecodeRune_width:
  assumes "bs \<noteq> []"
  shows "1 \<le> snd (DecodeRune bs) \<and> snd (DecodeRune bs) \<le> length bs"
proof (cases bs)
  case Nil
  with assms show ?thesis by simp
next
  case (Cons b0 rest)
  show ?thesis
  proof (cases "utf8_first b0")
    case None
    with Cons show ?thesis by simp
  next
    case (Some t)
    obtain sz lo hi where t: "t = (sz, lo, hi)" by (cases t)
    from Some t have "sz = 2 \<or> sz = 3 \<or> sz = 4"
      by (auto simp: utf8_first_def split: if_splits)
    with Cons Some t show ?thesis by (auto simp: Let_def Suc_le_eq)
  qed
qed

lemma range_bytes_index:
  "(i, r) \<in> set (range_bytes i0 bs) \<Longrightarrow> i0 \<le> i \<and> i < i0 + int (length bs)"
proof (induction i0 bs rule: range_bytes.induct)
  case (1 i)
  then show ?case by simp
next
  case (2 i0 b bs)
  obtain r0 k where d: "DecodeRune (b # bs) = (r0, k)" by (cases "DecodeRune (b # bs)")
  with DecodeRune_width [of "b # bs"] have k: "1 \<le> k" "k \<le> Suc (length bs)" by simp_all
  from "2.prems" d have "(i, r) = (i0, r0) \<or> (i, r) \<in> set (range_bytes (i0 + int k) (drop (k - 1) bs))"
    by simp
  then show ?case
  proof
    assume "(i, r) = (i0, r0)"
    then show ?thesis by simp
  next
    assume "(i, r) \<in> set (range_bytes (i0 + int k) (drop (k - 1) bs))"
    from "2.IH" [OF d [symmetric] this] k show ?thesis by auto
  qed
qed

lemma range_bytes_length: "length (range_bytes i0 bs) \<le> length bs"
proof (induction i0 bs rule: range_bytes.induct)
  case (1 i)
  then show ?case by simp
next
  case (2 i0 b bs)
  obtain r0 k where d: "DecodeRune (b # bs) = (r0, k)" by (cases "DecodeRune (b # bs)")
  from "2.IH" [OF d [symmetric]] d show ?case by simp
qed

lemma RuneCountInString_le: "RuneCountInString s \<le> int (length s)"
  using range_bytes_length [of 0 "map of_char s"]
  by (simp add: RuneCountInString_def range_string_def)

text \<open>
  A text of at most as many bytes as the row has cells is printed without a panic, on one
  row, when the pen is on the screen of a well-formed backend.
\<close>

lemma write_row_in_range:
  "\<forall>(i, r) \<in> set xs. 0 \<le> i \<and> i < rlen \<Longrightarrow> write_row xs off rlen mk cs = Inr (paint xs off mk cs)"
  by (induction xs off rlen mk cs rule: write_row.induct) auto

lemma pen_row_in_buffer:
  assumes ok: "backend_ok tb" and on: "pen_on_screen p tb"
    and dx: "0 \<le> pen_dx p" "pen_dx p \<le> pen_w p" and dy: "0 \<le> pen_dy p" "pen_dy p < pen_h p"
  shows "0 \<le> pen_dx p + pen_x p + (pen_dy p + pen_y p) * tb_width tb"
    and "pen_dx p + pen_x p + (pen_dy p + pen_y p) * tb_width tb + (pen_w p - pen_dx p)
           \<le> int (length (tb_cells tb))"
proof -
  let ?W = "tb_width tb" and ?H = "tb_height tb"
  from ok have W: "0 \<le> ?W" and len: "int (length (tb_cells tb)) = ?W * ?H"
    by (simp_all add: backend_ok_def)
  from on have x: "0 \<le> pen_x p" "0 \<le> pen_y p" "pen_x p + pen_w p \<le> ?W" "pen_y p + pen_h p \<le> ?H"
    by (simp_all add: pen_on_screen_def)
  have r: "0 \<le> (pen_dy p + pen_y p) * ?W" using W dy(1) x(2) by simp
  then show "0 \<le> pen_dx p + pen_x p + (pen_dy p + pen_y p) * ?W" using dx(1) x(1) by simp
  have "pen_dy p + pen_y p + 1 \<le> ?H" using dy(2) x(4) by simp
  then have "(pen_dy p + pen_y p + 1) * ?W \<le> ?H * ?W" using W by (rule mult_right_mono)
  then have "(pen_dy p + pen_y p) * ?W + ?W \<le> ?W * ?H" by (simp add: algebra_simps)
  with x(3) len
  show "pen_dx p + pen_x p + (pen_dy p + pen_y p) * ?W + (pen_w p - pen_dx p)
          \<le> int (length (tb_cells tb))"
    by simp
qed

lemma printRow_at_fits:
  assumes ok: "backend_ok tb" and on: "pen_on_screen p tb"
    and dx: "0 \<le> pen_dx p" and dy: "0 \<le> pen_dy p" "pen_dy p < pen_h p"
    and fits: "int (length s) \<le> pen_w p - pen_dx p"
  shows "printRow_at p s tb =
           Inr (pen_w p - pen_dx p, p\<lparr>pen_dx := pen_w p\<rparr>,
                tb\<lparr>tb_cells :=
                     paint (range_string s)
                       (pen_dx p + pen_x p + (pen_dy p + pen_y p) * tb_width tb)
                       (\<lambda>r. \<lparr>Ch = r, Fg = pen_fg p, Bg = pen_bg p\<rparr>) (tb_cells tb)\<rparr>)"
proof -
  let ?off = "pen_dx p + pen_x p + (pen_dy p + pen_y p) * tb_width tb"
  let ?rlen = "pen_w p - pen_dx p"
  from fits have dxw: "pen_dx p \<le> pen_w p" by (smt (verit) of_nat_0_le_iff)
  from pen_row_in_buffer [OF ok on dx dxw dy]
  have b: "0 \<le> ?off" "?off + ?rlen \<le> int (length (tb_cells tb))" by simp_all
  have rl: "0 \<le> ?rlen" using dxw by simp
  have ct: "\<not> ?rlen < RuneCountInString s" using RuneCountInString_le [of s] fits by simp
  have "\<forall>(i, r) \<in> set (range_string s). 0 \<le> i \<and> i < ?rlen"
    using range_bytes_index [of _ _ 0 "map of_char s"] fits
    by (fastforce simp: range_string_def)
  from write_row_in_range [OF this]
  have w: "write_row (range_string s) ?off ?rlen
             (\<lambda>r. \<lparr>Ch = r, Fg = pen_fg p, Bg = pen_bg p\<rparr>) (tb_cells tb) =
           Inr (paint (range_string s) ?off (\<lambda>r. \<lparr>Ch = r, Fg = pen_fg p, Bg = pen_bg p\<rparr>)
                  (tb_cells tb))" .
  show ?thesis using b rl ct w by (simp add: printRow_at_def Let_def)
qed

lemma Print_fits:
  assumes ok: "backend_ok tb" and on: "pen_on_screen p tb"
    and dx: "pen_dx p = 0" and dy: "0 \<le> pen_dy p" "pen_dy p < pen_h p"
    and s: "s \<noteq> []" and fits: "int (length s) \<le> pen_w p"
  shows "Print (Some p) s tb =
           Inr (Some (p\<lparr>pen_dx := 0, pen_dy := pen_dy p + 1\<rparr>),
                tb\<lparr>tb_cells :=
                     paint (range_string s) (pen_x p + (pen_dy p + pen_y p) * tb_width tb)
                       (\<lambda>r. \<lparr>Ch = r, Fg = pen_fg p, Bg = pen_bg p\<rparr>) (tb_cells tb)\<rparr>)"
proof -
  let ?tb' = "tb\<lparr>tb_cells :=
                     paint (range_string s) (pen_x p + (pen_dy p + pen_y p) * tb_width tb)
                       (\<lambda>r. \<lparr>Ch = r, Fg = pen_fg p, Bg = pen_bg p\<rparr>) (tb_cells tb)\<rparr>"
  let ?p' = "p\<lparr>pen_dx := 0, pen_dy := pen_dy p + 1\<rparr>"
  have row: "printRow_at p (drop (nat 0) s) tb = Inr (pen_w p, p\<lparr>pen_dx := pen_w p\<rparr>, ?tb')"
    using printRow_at_fits [OF ok on _ dy, of s] dx fits by simp
  have first: "Print_loop s 0 p tb = Print_loop s (0 + pen_w p) ?p' ?tb'"
    using Print_loop_step [of 0 s p tb] s dy(2) row by simp
  have "Print_loop s (0 + pen_w p) ?p' ?tb' = Inr (?p', ?tb')"
    using fits by (intro Print_loop_stop) simp
  with first show ?thesis by simp
qed

lemma Label_hello_fits:
  assumes ok: "backend_ok tb" and on: "pen_on_screen p tb"
    and cur: "pen_dx p = 0" "pen_dy p = 0" and wide: "5 \<le> pen_w p" and tall: "1 \<le> pen_h p"
  shows "Draw (Label ''hello'') (Some p) tb =
           Inr (Some (p\<lparr>pen_dx := 0, pen_dy := 1\<rparr>),
                tb\<lparr>tb_cells := (tb_cells tb)
                       [nat (pen_x p + pen_y p * tb_width tb) := \<lparr>Ch = 104, Fg = pen_fg p, Bg = pen_bg p\<rparr>,
                        nat (pen_x p + pen_y p * tb_width tb + 1) := \<lparr>Ch = 101, Fg = pen_fg p, Bg = pen_bg p\<rparr>,
                        nat (pen_x p + pen_y p * tb_width tb + 2) := \<lparr>Ch = 108, Fg = pen_fg p, Bg = pen_bg p\<rparr>,
                        nat (pen_x p + pen_y p * tb_width tb + 3) := \<lparr>Ch = 108, Fg = pen_fg p, Bg = pen_bg p\<rparr>,
                        nat (pen_x p + pen_y p * tb_width tb + 4) := \<lparr>Ch = 111, Fg = pen_fg p, Bg = pen_bg p\<rparr>]\<rparr>)"
proof -
  have r: "range_string ''hello'' = [(0, 104), (1, 101), (2, 108), (3, 108), (4, 111)]"
    by (simp add: range_string_def)
  show ?thesis
    using Print_fits [OF ok on cur(1), of "''hello''"] cur(2) wide tall
    by (simp add: r)
qed

text \<open>
  \<open>Print\<close> stays inside the rectangle of its pen: whether it returns or panics, a cell
  outside the rectangle is as it was before, provided the cursor is not negative.
\<close>

lemma write_row_frame:
  "write_row xs off rlen mk cs = Inr cs' \<or> write_row xs off rlen mk cs = Inl (e, cs') \<Longrightarrow>
     length cs' = length cs \<and>
     (\<forall>j. (\<forall>i. 0 \<le> i \<and> i < rlen \<longrightarrow> j \<noteq> nat (off + i)) \<longrightarrow> cs' ! j = cs ! j)"
proof (induction xs off rlen mk cs rule: write_row.induct)
  case (1 off rlen mk cs)
  then show ?case by simp
next
  case (2 i r rest off rlen mk cs)
  show ?case
  proof (cases "i < 0 \<or> rlen \<le> i")
    case True
    with "2.prems" show ?thesis by simp
  next
    case False
    with "2.prems" have "write_row rest off rlen mk (cs[nat (off + i) := mk r]) = Inr cs' \<or>
        write_row rest off rlen mk (cs[nat (off + i) := mk r]) = Inl (e, cs')" by simp
    from "2.IH" [OF False this]
    have len: "length cs' = length cs"
      and fr: "\<And>j. (\<forall>i. 0 \<le> i \<and> i < rlen \<longrightarrow> j \<noteq> nat (off + i)) \<Longrightarrow>
                 cs' ! j = cs[nat (off + i) := mk r] ! j"
      by simp_all
    have "cs' ! j = cs ! j" if out: "\<forall>i. 0 \<le> i \<and> i < rlen \<longrightarrow> j \<noteq> nat (off + i)" for j
    proof -
      from out False have "j \<noteq> nat (off + i)" by simp
      with fr [OF out] show ?thesis by simp
    qed
    with len show ?thesis by simp
  qed
qed

lemma printRow_at_frame:
  assumes r: "printRow_at p s tb = Inr (k, p', tb') \<or> printRow_at p s tb = Inl (e, tb')"
    and dx: "0 \<le> pen_dx p" and dy: "0 \<le> pen_dy p" "pen_dy p < pen_h p"
  shows "tb_width tb' = tb_width tb \<and> tb_height tb' = tb_height tb \<and>
         length (tb_cells tb') = length (tb_cells tb) \<and>
         (\<forall>j. j \<notin> pen_cells p (tb_width tb) \<longrightarrow> tb_cells tb' ! j = tb_cells tb ! j)"
proof -
  let ?off = "pen_dx p + pen_x p + (pen_dy p + pen_y p) * tb_width tb"
  let ?rlen = "pen_w p - pen_dx p"
  let ?mk = "\<lambda>r. \<lparr>Ch = r, Fg = pen_fg p, Bg = pen_bg p\<rparr>"
  let ?s' = "if ?rlen < RuneCountInString s then take (nat (RuneCountInString s)) s else s"
  show ?thesis
  proof (cases "?off < 0 \<or> int (length (tb_cells tb)) < ?off \<or> ?rlen < 0 \<or>
                int (length (tb_cells tb)) - ?off < ?rlen")
    case True
    with r have "tb' = tb" by (auto simp: printRow_at_def Let_def split: if_splits)
    then show ?thesis by simp
  next
    case False
    then have off: "0 \<le> ?off" by simp
    from False r obtain cs' where
      w: "write_row (range_string ?s') ?off ?rlen ?mk (tb_cells tb) = Inr cs' \<or>
          write_row (range_string ?s') ?off ?rlen ?mk (tb_cells tb) = Inl (e, cs')"
      and tb': "tb' = tb\<lparr>tb_cells := cs'\<rparr>"
      by (auto simp: printRow_at_def Let_def split: if_splits sum.splits prod.splits)
    from write_row_frame [OF w]
    have len: "length cs' = length (tb_cells tb)"
      and fr: "\<And>j. (\<forall>i. 0 \<le> i \<and> i < ?rlen \<longrightarrow> j \<noteq> nat (?off + i)) \<Longrightarrow> cs' ! j = tb_cells tb ! j"
      by simp_all
    have "cs' ! j = tb_cells tb ! j" if out: "j \<notin> pen_cells p (tb_width tb)" for j
    proof (rule fr, intro allI impI)
      fix i assume i: "0 \<le> i \<and> i < ?rlen"
      show "j \<noteq> nat (?off + i)"
      proof
        assume "j = nat (?off + i)"
        then have "j = nat ((pen_dx p + pen_x p + i) + (pen_dy p + pen_y p) * tb_width tb)"
          by (simp add: algebra_simps)
        moreover have "pen_x p \<le> pen_dx p + pen_x p + i" "pen_dx p + pen_x p + i < pen_x p + pen_w p"
          "pen_y p \<le> pen_dy p + pen_y p" "pen_dy p + pen_y p < pen_y p + pen_h p"
          using i dx dy by simp_all
        ultimately have "j \<in> pen_cells p (tb_width tb)"
          unfolding pen_cells_def by blast
        with out show False by simp
      qed
    qed
    with len tb' show ?thesis by simp
  qed
qed

lemma pen_cells_cursor [simp]:
  "pen_cells (p\<lparr>pen_dx := a\<rparr>) stride = pen_cells p stride"
  "pen_cells (p\<lparr>pen_dy := b\<rparr>) stride = pen_cells p stride"
  by (simp_all add: pen_cells_def)

lemma Print_loop_frame:
  "Print_loop s n p tb = Inr (p', tb') \<or> Print_loop s n p tb = Inl (e, tb') \<Longrightarrow>
   0 \<le> pen_dx p \<Longrightarrow> 0 \<le> pen_dy p \<Longrightarrow>
     tb_width tb' = tb_width tb \<and> tb_height tb' = tb_height tb \<and>
     length (tb_cells tb') = length (tb_cells tb) \<and>
     (\<forall>j. j \<notin> pen_cells p (tb_width tb) \<longrightarrow> tb_cells tb' ! j = tb_cells tb ! j)"
proof (induction s n p tb rule: Print_loop.induct)
  case (1 s n p tb)
  show ?case
  proof (cases "n < int (length s) \<and> pen_dy p < pen_h p")
    case False
    with "1.prems"(1) show ?thesis by (simp add: Print_loop_stop)
  next
    case True
    note step = Print_loop_step [of n s p tb, OF conjunct1 [OF True] conjunct2 [OF True]]
    show ?thesis
    proof (cases "printRow_at p (drop (nat n) s) tb")
      case (Inl x)
      with "1.prems"(1) step have "printRow_at p (drop (nat n) s) tb = Inl (e, tb')" by simp
      then show ?thesis
        using printRow_at_frame [of p "drop (nat n) s" tb _ _ tb' e] "1.prems"(2,3) True by simp
    next
      case (Inr y)
      obtain k q tb1 where y: "y = (k, q, tb1)" by (cases y)
      with Inr have r: "printRow_at p (drop (nat n) s) tb = Inr (k, q, tb1)" by simp
      have q: "q = p\<lparr>pen_dx := pen_dx p + k\<rparr>" by (rule printRow_at_pen [OF r])
      let ?q = "q\<lparr>pen_dx := 0, pen_dy := pen_dy q + 1\<rparr>"
      from printRow_at_frame [of p "drop (nat n) s" tb k q tb1 e] r "1.prems"(2,3) True
      have f1: "tb_width tb1 = tb_width tb" "tb_height tb1 = tb_height tb"
        "length (tb_cells tb1) = length (tb_cells tb)"
        "\<forall>j. j \<notin> pen_cells p (tb_width tb) \<longrightarrow> tb_cells tb1 ! j = tb_cells tb ! j"
        by simp_all
      from "1.prems"(1) step r
      have l: "Print_loop s (n + k) ?q tb1 = Inr (p', tb') \<or> Print_loop s (n + k) ?q tb1 = Inl (e, tb')"
        by simp
      have "0 \<le> pen_dx ?q" "0 \<le> pen_dy ?q" using q "1.prems"(3) by simp_all
      from "1.IH" [OF True r refl refl l this]
      have f2: "tb_width tb' = tb_width tb1" "tb_height tb' = tb_height tb1"
        "length (tb_cells tb') = length (tb_cells tb1)"
        "\<forall>j. j \<notin> pen_cells ?q (tb_width tb1) \<longrightarrow> tb_cells tb' ! j = tb_cells tb1 ! j"
        by simp_all
      have "pen_cells ?q (tb_width tb1) = pen_cells p (tb_width tb)"
        using q f1(1) by simp
      with f1 f2 show ?thesis by simp
    qed
  qed
qed

lemma Print_frame:
  assumes "Print (Some p) s tb = Inr (q, tb') \<or> Print (Some p) s tb = Inl (e, tb')"
    and "0 \<le> pen_dx p" and "0 \<le> pen_dy p"
  shows "length (tb_cells tb') = length (tb_cells tb) \<and>
         (\<forall>j. j \<notin> pen_cells p (tb_width tb) \<longrightarrow> tb_cells tb' ! j = tb_cells tb ! j)"
proof -
  from assms(1) obtain p' where
    "Print_loop s 0 p tb = Inr (p', tb') \<or> Print_loop s 0 p tb = Inl (e, tb')"
    by (auto split: sum.splits)
  from Print_loop_frame [OF this assms(2,3)] show ?thesis by simp
qed

text \<open>
  What \<open>Clear\<close> writes, for a pen on the screen of a well-formed backend: it returns, and
  the cell at column \<open>col\<close> and row \<open>row\<close> of the terminal is the blank cell when
  \<open>col\<close> is a column of the pen and \<open>row\<close> is below the height of the pen, counted from
  the top of the terminal; every other cell is as it was. The rows are \<open>[0, h)\<close>, whatever
  \<open>p.y\<close> is.
\<close>

lemma cell_index_row:
  fixes W col row y px pw :: int
  assumes "0 \<le> W" "0 \<le> col" "col < W" "0 \<le> px" "0 \<le> pw" "px + pw \<le> W"
  shows "(y * W + px \<le> col + row * W \<and> col + row * W < y * W + px + pw) =
         (row = y \<and> px \<le> col \<and> col < px + pw)"
proof (cases "row < y")
  case True
  then have "row + 1 \<le> y" by simp
  then have "(row + 1) * W \<le> y * W" using assms(1) by (rule mult_right_mono)
  then have "col + row * W < y * W + px" using assms by (simp add: algebra_simps)
  with True show ?thesis by auto
next
  case False
  show ?thesis
  proof (cases "row = y")
    case True
    then show ?thesis by auto
  next
    case ne: False
    with False have "y + 1 \<le> row" by simp
    then have "(y + 1) * W \<le> row * W" using assms(1) by (rule mult_right_mono)
    then have "y * W + px + pw \<le> col + row * W" using assms by (simp add: algebra_simps)
    with ne show ?thesis by auto
  qed
qed

lemma Clear_row_cells:
  "0 \<le> x \<Longrightarrow> 0 \<le> off \<Longrightarrow> off + w \<le> int (length cs) \<Longrightarrow>
     \<exists>cs'. Clear_row c off w x cs = Inr cs' \<and> length cs' = length cs \<and>
       (\<forall>j < length cs. cs' ! j = (if off + x \<le> int j \<and> int j < off + w then c else cs ! j))"
proof (induction c off w x cs rule: Clear_row.induct)
  case (1 c off w x cs)
  show ?case
  proof (cases "x < w")
    case False
    then have "Clear_row c off w x cs = Inr cs" by (simp add: Clear_row.simps [of c off w x cs])
    moreover from False have "\<not> (off + x \<le> int j \<and> int j < off + w)" for j by linarith
    ultimately show ?thesis by auto
  next
    case True
    with "1.prems" have ok: "\<not> (x < 0 \<or> int (length cs) - off \<le> x)" by simp
    let ?cs = "cs[nat (off + x) := c]"
    from "1.prems" have "0 \<le> x + 1" "off + w \<le> int (length ?cs)" by simp_all
    from "1.IH" [OF True ok this(1) "1.prems"(2) this(2)]
    obtain cs' where r: "Clear_row c off w (x + 1) ?cs = Inr cs'" and len: "length cs' = length cs"
      and c: "\<forall>j < length cs. cs' ! j = (if off + (x + 1) \<le> int j \<and> int j < off + w then c else ?cs ! j)"
      by auto
    have "Clear_row c off w x cs = Inr cs'"
      using True ok r by (simp add: Clear_row.simps [of c off w x cs])
    moreover have "cs' ! j = (if off + x \<le> int j \<and> int j < off + w then c else cs ! j)"
      if j: "j < length cs" for j
    proof (cases "int j = off + x")
      case True
      then have "j = nat (off + x)" by simp
      with c j True \<open>x < w\<close> show ?thesis by simp
    next
      case False
      then have "j \<noteq> nat (off + x)" using "1.prems" by auto
      with c j False show ?thesis by auto
    qed
    ultimately show ?thesis using len by blast
  qed
qed

lemma cell_index_bound:
  fixes W H col row :: int
  assumes "0 \<le> col" "col < W" "0 \<le> row" "row < H"
  shows "0 \<le> col + row * W" and "col + row * W < W * H"
proof -
  from assms have W: "0 \<le> W" by simp
  with assms(1,3) show "0 \<le> col + row * W" by simp
  from assms(4) have "row + 1 \<le> H" by simp
  then have "(row + 1) * W \<le> H * W" using W by (rule mult_right_mono)
  with assms(2) show "col + row * W < W * H" by (simp add: algebra_simps)
qed

lemma Clear_rows_cells:
  "0 \<le> W \<Longrightarrow> 0 \<le> pen_x p \<Longrightarrow> 0 \<le> pen_w p \<Longrightarrow> pen_x p + pen_w p \<le> W \<Longrightarrow>
   pen_h p \<le> H \<Longrightarrow> 0 \<le> y \<Longrightarrow> int (length cs) = W * H \<Longrightarrow>
     \<exists>cs'. Clear_rows p c W y cs = Inr cs' \<and> length cs' = length cs \<and>
       (\<forall>col row. 0 \<le> col \<and> col < W \<and> 0 \<le> row \<and> row < H \<longrightarrow>
          cs' ! nat (col + row * W) =
            (if pen_x p \<le> col \<and> col < pen_x p + pen_w p \<and> y \<le> row \<and> row < pen_h p
             then c else cs ! nat (col + row * W)))"
proof (induction p c W y cs rule: Clear_rows.induct)
  case (1 p c W y cs)
  show ?case
  proof (cases "y < pen_h p")
    case False
    then have "Clear_rows p c W y cs = Inr cs" by (simp add: Clear_rows.simps [of p c W y cs])
    moreover from False have "\<not> (y \<le> row \<and> row < pen_h p)" for row by linarith
    ultimately show ?thesis by auto
  next
    case True
    let ?off = "y * W + pen_x p"
    have off0: "0 \<le> ?off" using "1.prems" by simp
    have "y + 1 \<le> H" using True "1.prems" by simp
    then have "(y + 1) * W \<le> H * W" using \<open>0 \<le> W\<close> by (rule mult_right_mono)
    then have offw: "?off + pen_w p \<le> int (length cs)"
      using "1.prems" by (simp add: algebra_simps)
    have ok: "\<not> (?off < 0 \<or> int (length cs) < ?off)"
      using off0 offw \<open>0 \<le> pen_w p\<close> by linarith
    from Clear_row_cells [of 0 ?off "pen_w p" cs c] off0 offw
    obtain cs1 where r1: "Clear_row c ?off (pen_w p) 0 cs = Inr cs1"
      and len1: "length cs1 = length cs"
      and c1: "\<forall>j < length cs. cs1 ! j = (if ?off \<le> int j \<and> int j < ?off + pen_w p then c else cs ! j)"
      by auto
    have "0 \<le> y + 1" "int (length cs1) = W * H" using "1.prems" len1 by simp_all
    from "1.IH" [OF True refl ok r1 "1.prems"(1-5) this]
    obtain cs' where r: "Clear_rows p c W (y + 1) cs1 = Inr cs'" and len: "length cs' = length cs1"
      and c': "\<forall>col row. 0 \<le> col \<and> col < W \<and> 0 \<le> row \<and> row < H \<longrightarrow>
          cs' ! nat (col + row * W) =
            (if pen_x p \<le> col \<and> col < pen_x p + pen_w p \<and> y + 1 \<le> row \<and> row < pen_h p
             then c else cs1 ! nat (col + row * W))"
      by auto
    have run: "Clear_rows p c W y cs = Inr cs'"
      using True ok r1 r by (simp add: Clear_rows.simps [of p c W y cs] Let_def)
    have "cs' ! nat (col + row * W) =
            (if pen_x p \<le> col \<and> col < pen_x p + pen_w p \<and> y \<le> row \<and> row < pen_h p
             then c else cs ! nat (col + row * W))"
      if cr: "0 \<le> col \<and> col < W \<and> 0 \<le> row \<and> row < H" for col row
    proof -
      from cr cell_index_bound [of col W row H]
      have b: "0 \<le> col + row * W" "col + row * W < W * H" by simp_all
      then have j: "nat (col + row * W) < length cs" using "1.prems"(7) by linarith
      have idx: "(?off \<le> col + row * W \<and> col + row * W < ?off + pen_w p) =
                 (row = y \<and> pen_x p \<le> col \<and> col < pen_x p + pen_w p)"
        using cell_index_row [of W col "pen_x p" "pen_w p" y row] cr "1.prems" by simp
      from c1 j b(1) have "cs1 ! nat (col + row * W) =
          (if ?off \<le> col + row * W \<and> col + row * W < ?off + pen_w p then c
           else cs ! nat (col + row * W))"
        by simp
      with idx have s1: "cs1 ! nat (col + row * W) =
          (if row = y \<and> pen_x p \<le> col \<and> col < pen_x p + pen_w p then c
           else cs ! nat (col + row * W))"
        by simp
      from c' cr have "cs' ! nat (col + row * W) =
            (if pen_x p \<le> col \<and> col < pen_x p + pen_w p \<and> y + 1 \<le> row \<and> row < pen_h p
             then c else cs1 ! nat (col + row * W))"
        by blast
      with s1 True show ?thesis by auto
    qed
    with run len len1 show ?thesis by auto
  qed
qed

lemma Clear_cells:
  assumes ok: "backend_ok tb" and on: "pen_on_screen p tb"
  shows "\<exists>cs'. Clear (Some p) tb =
                 Inr (Some (p\<lparr>pen_dx := 0, pen_dy := 0\<rparr>), tb\<lparr>tb_cells := cs'\<rparr>) \<and>
           length cs' = length (tb_cells tb) \<and>
           (\<forall>col row. 0 \<le> col \<and> col < tb_width tb \<and> 0 \<le> row \<and> row < tb_height tb \<longrightarrow>
              cs' ! nat (col + row * tb_width tb) =
                (if pen_x p \<le> col \<and> col < pen_x p + pen_w p \<and> row < pen_h p
                 then \<lparr>Ch = 32, Fg = pen_fg p, Bg = pen_bg p\<rparr>
                 else tb_cells tb ! nat (col + row * tb_width tb)))"
proof -
  from ok on have h: "pen_h p \<le> tb_height tb"
    by (simp add: backend_ok_def pen_on_screen_def)
  from Clear_rows_cells [of "tb_width tb" p "tb_height tb" 0 "tb_cells tb"
      "\<lparr>Ch = 32, Fg = pen_fg p, Bg = pen_bg p\<rparr>"] ok on h
  obtain cs' where r: "Clear_rows p \<lparr>Ch = 32, Fg = pen_fg p, Bg = pen_bg p\<rparr> (tb_width tb) 0 (tb_cells tb) = Inr cs'"
    and len: "length cs' = length (tb_cells tb)"
    and c: "\<forall>col row. 0 \<le> col \<and> col < tb_width tb \<and> 0 \<le> row \<and> row < tb_height tb \<longrightarrow>
          cs' ! nat (col + row * tb_width tb) =
            (if pen_x p \<le> col \<and> col < pen_x p + pen_w p \<and> 0 \<le> row \<and> row < pen_h p
             then \<lparr>Ch = 32, Fg = pen_fg p, Bg = pen_bg p\<rparr>
             else tb_cells tb ! nat (col + row * tb_width tb))"
    by (auto simp: backend_ok_def pen_on_screen_def)
  have "Clear (Some p) tb = Inr (Some (p\<lparr>pen_dx := 0, pen_dy := 0\<rparr>), tb\<lparr>tb_cells := cs'\<rparr>)"
    using r by simp
  moreover from c have "\<forall>col row. 0 \<le> col \<and> col < tb_width tb \<and> 0 \<le> row \<and> row < tb_height tb \<longrightarrow>
              cs' ! nat (col + row * tb_width tb) =
                (if pen_x p \<le> col \<and> col < pen_x p + pen_w p \<and> row < pen_h p
                 then \<lparr>Ch = 32, Fg = pen_fg p, Bg = pen_bg p\<rparr>
                 else tb_cells tb ! nat (col + row * tb_width tb))"
    by auto
  ultimately show ?thesis using len by blast
qed

text \<open>The loops that keep a running maximum, started at \<open>a\<close> and \<open>b\<close>.\<close>

lemma Max_insert_max:
  "finite S \<Longrightarrow> Max (insert (max a n) S) = Max (insert a (insert n S))" for a n :: int
  by (cases "S = {}") (simp_all add: max.assoc)

lemma fold_max_pairs:
  "fold (\<lambda>r (mn, mx). case f r of (n, x) \<Rightarrow>
           (if n > mn then n else mn, if x > mx then x else mx)) t (a, b) =
     (Max (insert a (set (map (fst \<circ> f) t))), Max (insert b (set (map (snd \<circ> f) t))))"
  for a b :: int
proof (induction t arbitrary: a b)
  case Nil
  show ?case by simp
next
  case (Cons r t)
  obtain n x where fr: "f r = (n, x)" by (cases "f r")
  have m: "(if n > a then n else a) = max a n" "(if x > b then x else b) = max b x"
    by (simp_all add: max_def)
  show ?case
    by (simp add: fr m Cons.IH Max_insert_max del: Max_insert)
qed

text \<open>
  The pieces of drawing \<open>Row{Label("a"), Label("bb")}\<close> on a pen of width 10 and height 1:
  the sizes, and the two labels on the pens clipped for them.
\<close>

lemma Row_two_labels_sizes: "fitSize 10 [Label ''a'', Label ''bb''] ReqWidth = [1, 2]"
  by (simp add: fitSize_def fitSize_loop.simps)

lemma Row_two_labels_first: "Draw (Label ''a'')
        (Some \<lparr>pen_x = 0, pen_y = 0, pen_w = 1, pen_h = 1, pen_dx = 0, pen_dy = 0,
               pen_fg = fg, pen_bg = bg\<rparr>)
        \<lparr>tb_width = 10, tb_height = 1,
           tb_cells = [c0, c1, c2, c3, c4, c5, c6, c7, c8, c9]\<rparr> =
   Inr (Some \<lparr>pen_x = 0, pen_y = 0, pen_w = 1, pen_h = 1, pen_dx = 0, pen_dy = 1,
               pen_fg = fg, pen_bg = bg\<rparr>,
        \<lparr>tb_width = 10, tb_height = 1,
           tb_cells = [\<lparr>Ch = 97, Fg = fg, Bg = bg\<rparr>, c1, c2, c3, c4, c5, c6, c7, c8, c9]\<rparr>)"
  by (simp add: Print_loop.simps printRow_at_def
        RuneCountInString_def range_string_def)

lemma Row_two_labels_second: "Draw (Label ''bb'')
        (Some \<lparr>pen_x = 1, pen_y = 0, pen_w = 2, pen_h = 1, pen_dx = 0, pen_dy = 0,
               pen_fg = fg, pen_bg = bg\<rparr>)
        \<lparr>tb_width = 10, tb_height = 1,
           tb_cells = [c0, c1, c2, c3, c4, c5, c6, c7, c8, c9]\<rparr> =
   Inr (Some \<lparr>pen_x = 1, pen_y = 0, pen_w = 2, pen_h = 1, pen_dx = 0, pen_dy = 1,
               pen_fg = fg, pen_bg = bg\<rparr>,
        \<lparr>tb_width = 10, tb_height = 1,
           tb_cells = [c0, \<lparr>Ch = 98, Fg = fg, Bg = bg\<rparr>, \<lparr>Ch = 98, Fg = fg, Bg = bg\<rparr>, c3, c4, c5, c6, c7, c8, c9]\<rparr>)"
  by (simp add: Print_loop.simps printRow_at_def
        RuneCountInString_def range_string_def)

text \<open>An integer of the range of Go's \<open>int\<close> is not changed by the wrap-around.\<close>

lemma wrap64_id:
  "- 9223372036854775808 \<le> v \<Longrightarrow> v < 9223372036854775808 \<Longrightarrow> wrap64 v = v"
  by (simp add: wrap64_def)

lemma wrap64_range: "- 9223372036854775808 \<le> wrap64 v \<and> wrap64 v < 9223372036854775808"
proof -
  have "0 \<le> (v + 9223372036854775808) mod 18446744073709551616"
    and "(v + 9223372036854775808) mod 18446744073709551616 < 18446744073709551616"
    by simp_all
  then show ?thesis unfolding wrap64_def by linarith
qed

text \<open>The width requirement of a \<open>Grid\<close>, with the running maximums as sets.\<close>

lemma Grid_ReqWidth_eq:
  "ReqWidth (Grid t) =
     (wrap64 (Max (insert 0 (set (map (fst \<circ> ReqWidth \<circ> Row) t))) + int (length t)),
      wrap64 (Max (insert 0 (set (map (snd \<circ> ReqWidth \<circ> Row) t))) + int (length t)))"
  using fold_max_pairs [of "ReqWidth \<circ> Row" t 0 0] by (simp add: comp_def)

text \<open>
  Where some row has a minimum and some row has a maximum that is not negative, and the
  two sums stay below \<open>2^63\<close>, the width requirement of a \<open>Grid\<close> is the one the
  specification words.
\<close>

lemma Grid_ReqWidth_nonneg:
  assumes "\<exists>r \<in> set t. 0 \<le> fst (ReqWidth (Row r))" and "\<exists>r \<in> set t. 0 \<le> snd (ReqWidth (Row r))"
    and "fst (Grid_ReqWidth_claimed t) < 9223372036854775808"
    and "snd (Grid_ReqWidth_claimed t) < 9223372036854775808"
  shows "ReqWidth (Grid t) = Grid_ReqWidth_claimed t"
proof -
  have *: "Max (insert 0 (f ` set t)) = Max (f ` set t) \<and> 0 \<le> Max (f ` set t)"
    if "\<exists>r \<in> set t. 0 \<le> f r" for f :: "widget list \<Rightarrow> int"
  proof -
    from that obtain r where r: "r \<in> set t" "0 \<le> f r" by blast
    then have "f r \<le> Max (f ` set t)" by simp
    with r(2) have "0 \<le> Max (f ` set t)" by linarith
    moreover have "f ` set t \<noteq> {}" using r by auto
    ultimately show ?thesis by (simp add: max_def)
  qed
  let ?mn = "Max ((\<lambda>x. fst (ReqWidth (Row x))) ` set t)"
  let ?mx = "Max ((\<lambda>x. snd (ReqWidth (Row x))) ` set t)"
  have f: "Max (insert 0 ((\<lambda>x. fst (ReqWidth (Row x))) ` set t)) = ?mn" "0 \<le> ?mn"
    using * [OF assms(1)] by simp_all
  have s: "Max (insert 0 ((\<lambda>x. snd (ReqWidth (Row x))) ` set t)) = ?mx" "0 \<le> ?mx"
    using * [OF assms(2)] by simp_all
  have c: "Grid_ReqWidth_claimed t = (?mn + int (length t), ?mx + int (length t))"
    by (simp add: Grid_ReqWidth_claimed_def comp_def image_image)
  have "wrap64 (?mn + int (length t)) = ?mn + int (length t)"
    using assms(3) f(2) unfolding c by (intro wrap64_id) simp_all
  moreover have "wrap64 (?mx + int (length t)) = ?mx + int (length t)"
    using assms(4) s(2) unfolding c by (intro wrap64_id) simp_all
  ultimately show ?thesis
    using Grid_ReqWidth_eq [of t] f(1) s(1) c
    by (simp add: comp_def image_image del: Max_insert)
qed

text \<open>
  A consequence of the sizes of \<open>fitSize\<close> exceeding the budget: in a row of two blanks
  that may grow and a label, drawn on a pen of width 2, the sizes are \<open>[1, 1, 1]\<close>, the
  clip for the label starts at column 2 and is \<open>nil\<close>, and the label is not painted.
\<close>

lemma Row_drops_label_sizes:
  "fitSize 2 [Blank 0 1 0 0, Blank 0 1 0 0, Label ''a''] ReqWidth = [1, 1, 1]"
  by (simp add: fitSize_def fitSize_loop.simps)

lemma Row_drops_label:
  "Draw (Row [Blank 0 1 0 0, Blank 0 1 0 0, Label ''a''])
        (Some \<lparr>pen_x = 0, pen_y = 0, pen_w = 2, pen_h = 1, pen_dx = 0, pen_dy = 0,
               pen_fg = fg, pen_bg = bg\<rparr>)
        \<lparr>tb_width = 2, tb_height = 1, tb_cells = [c0, c1]\<rparr> =
   Inr (Some \<lparr>pen_x = 0, pen_y = 0, pen_w = 2, pen_h = 1, pen_dx = 0, pen_dy = 0,
               pen_fg = fg, pen_bg = bg\<rparr>,
        \<lparr>tb_width = 2, tb_height = 1, tb_cells = [c0, c1]\<rparr>)"
  apply (simp only: Draw.simps Width.simps Height.simps Let_def Row_drops_label_sizes pen.simps)
  apply simp
  done

text \<open>
  A row whose first widget requires a negative width clips its second widget at a negative
  offset: drawn on the pen of the columns 5 and 6, the label is painted in the columns 2
  and 3.
\<close>

lemma Row_paints_left_of_its_pen_sizes:
  "fitSize 2 [Blank (- 3) (- 3) 0 0, Label ''ab'', Blank 3 3 0 0] ReqWidth = [- 3, 2, 3]"
  by (simp add: fitSize_def fitSize_loop.simps)

lemma Row_paints_left_of_its_pen_label:
  "Draw (Label ''ab'')
        (Some \<lparr>pen_x = 2, pen_y = 0, pen_w = 2, pen_h = 1, pen_dx = 0, pen_dy = 0,
               pen_fg = fg, pen_bg = bg\<rparr>)
        \<lparr>tb_width = 10, tb_height = 1,
           tb_cells = [c0, c1, c2, c3, c4, c5, c6, c7, c8, c9]\<rparr> =
   Inr (Some \<lparr>pen_x = 2, pen_y = 0, pen_w = 2, pen_h = 1, pen_dx = 0, pen_dy = 1,
               pen_fg = fg, pen_bg = bg\<rparr>,
        \<lparr>tb_width = 10, tb_height = 1,
           tb_cells = [c0, c1, \<lparr>Ch = 97, Fg = fg, Bg = bg\<rparr>, \<lparr>Ch = 98, Fg = fg, Bg = bg\<rparr>,
                       c4, c5, c6, c7, c8, c9]\<rparr>)"
  by (simp add: Print_loop.simps printRow_at_def RuneCountInString_def range_string_def)

lemma Row_paints_left_of_its_pen:
  "Draw (Row [Blank (- 3) (- 3) 0 0, Label ''ab'', Blank 3 3 0 0])
        (Some \<lparr>pen_x = 5, pen_y = 0, pen_w = 2, pen_h = 1, pen_dx = 0, pen_dy = 0,
               pen_fg = fg, pen_bg = bg\<rparr>)
        \<lparr>tb_width = 10, tb_height = 1,
           tb_cells = [c0, c1, c2, c3, c4, c5, c6, c7, c8, c9]\<rparr> =
   Inr (Some \<lparr>pen_x = 5, pen_y = 0, pen_w = 2, pen_h = 1, pen_dx = 0, pen_dy = 0,
               pen_fg = fg, pen_bg = bg\<rparr>,
        \<lparr>tb_width = 10, tb_height = 1,
           tb_cells = [c0, c1, \<lparr>Ch = 97, Fg = fg, Bg = bg\<rparr>, \<lparr>Ch = 98, Fg = fg, Bg = bg\<rparr>,
                       c4, c5, c6, c7, c8, c9]\<rparr>)"
  apply (simp only: Draw.simps Width.simps Height.simps Let_def
      Row_paints_left_of_its_pen_sizes pen.simps)
  apply (simp add: Row_paints_left_of_its_pen_label del: Draw.simps(1))
  done

section \<open>The claims\<close>

text \<open>
  Claim C1. For requirement pairs with every minimum at most its maximum and a total between
  the sum of the minimums and the sum of the maximums, the allocations of \<open>fitSize\<close> are
  said to sum to exactly the total, each within its bounds. The bounds hold
  (\<open>fitSize_bounds_and_sum\<close>), the sum does not: the code runs every growth pass to its
  end without looking at the remaining budget. With total 1 and two blanks of width
  requirement \<open>(0, 1)\<close>, both are grown in the one pass, the allocations are \<open>[1, 1]\<close> and
  their sum is 2.
\<close>

theorem fitSize_overshoots_total:
  "fitSize 1 [Blank 0 1 0 0, Blank 0 1 0 0] ReqWidth = [1, 1] \<and>
   sum_list (fitSize 1 [Blank 0 1 0 0, Blank 0 1 0 0] ReqWidth) \<noteq> 1"
  by (simp add: fitSize_def fitSize_loop.simps)

text \<open>
  Claim C2. Every pen derived by \<open>Clip\<close> is said to lie inside the pen it was derived from.
  \<open>Clip\<close> tests the new origin against 0, not against the origin of the receiver. From
  the pen of a terminal 10 wide and 1 tall, \<open>Clip(5, 0, 5, 1)\<close> gives the pen of the columns
  5 to 9; on that pen \<open>Clip(-3, 0, 2, 1)\<close> is not \<open>nil\<close>: it gives the pen of the columns
  2 and 3, left of the pen it was derived from. (With offsets that are not negative the
  derived pen is inside, \<open>Clip_within\<close> and \<open>Clips_within\<close>;
  \<open>Row_paints_left_of_its_pen\<close> reaches the case through \<open>Row.Draw\<close>.)
\<close>

theorem Clip_escapes_parent:
  "Clip (Some \<lparr>pen_x = 0, pen_y = 0, pen_w = 10, pen_h = 1, pen_dx = 0, pen_dy = 0,
               pen_fg = fg, pen_bg = bg\<rparr>) 5 0 5 1 =
     Some \<lparr>pen_x = 5, pen_y = 0, pen_w = 5, pen_h = 1, pen_dx = 0, pen_dy = 0,
            pen_fg = fg, pen_bg = bg\<rparr> \<and>
   Clip (Some \<lparr>pen_x = 5, pen_y = 0, pen_w = 5, pen_h = 1, pen_dx = 0, pen_dy = 0,
               pen_fg = fg, pen_bg = bg\<rparr>) (- 3) 0 2 1 =
     Some \<lparr>pen_x = 2, pen_y = 0, pen_w = 2, pen_h = 1, pen_dx = 0, pen_dy = 0,
            pen_fg = fg, pen_bg = bg\<rparr> \<and>
   \<not> pen_within
       \<lparr>pen_x = 2, pen_y = 0, pen_w = 2, pen_h = 1, pen_dx = 0, pen_dy = 0,
          pen_fg = fg, pen_bg = bg\<rparr>
       \<lparr>pen_x = 5, pen_y = 0, pen_w = 5, pen_h = 1, pen_dx = 0, pen_dy = 0,
          pen_fg = fg, pen_bg = bg\<rparr>"
  by (simp add: pen_within_def)

text \<open>
  Claim C3. \<open>Label("hello")\<close> requires the width \<open>(5, 5)\<close> and the height \<open>(1, 1)\<close>. Painted
  on a pen narrower than 5 it is said to write a truncated prefix without any error. On a
  pen of width 3 and height 1 the string is cut to its rune count 5, that is not at all,
  the first three runes are written, and the index 3 is outside the row of length 3:
  the call panics.
\<close>

theorem Label_hello_panics_when_narrow:
  "ReqWidth (Label ''hello'') = (5, 5) \<and> ReqHeight (Label ''hello'') = (1, 1) \<and>
   Draw (Label ''hello'')
        (Some \<lparr>pen_x = 0, pen_y = 0, pen_w = 3, pen_h = 1, pen_dx = 0, pen_dy = 0,
               pen_fg = fg, pen_bg = bg\<rparr>)
        \<lparr>tb_width = 3, tb_height = 1, tb_cells = [c0, c1, c2]\<rparr> =
   Inl (IndexOutOfRange,
        \<lparr>tb_width = 3, tb_height = 1,
           tb_cells = [\<lparr>Ch = 104, Fg = fg, Bg = bg\<rparr>, \<lparr>Ch = 101, Fg = fg, Bg = bg\<rparr>,
                       \<lparr>Ch = 108, Fg = fg, Bg = bg\<rparr>]\<rparr>)"
  by (simp add: Print_loop.simps printRow_at_def RuneCountInString_def range_string_def)

text \<open>
  Claim C4. The width of a \<open>Label\<close> is said to be the number of its characters, not of its
  bytes, and painting is said to write one cell per character, at the character's position.
  The label of the one character U+00E9, the two bytes C3 A9, declares the width
  \<open>(2, 2)\<close>, while \<open>utf8.RuneCountInString\<close> counts 1 rune; and painting U+00E9 followed
  by \<open>a\<close> writes the cells 0 and 2, the byte offsets, and leaves the cell 1 as it was.
\<close>

theorem Label_width_counts_bytes:
  "ReqWidth (Label [CHR 0xC3, CHR 0xA9]) = (2, 2) \<and>
   RuneCountInString [CHR 0xC3, CHR 0xA9] = 1 \<and>
   Draw (Label [CHR 0xC3, CHR 0xA9, CHR ''a''])
        (Some \<lparr>pen_x = 0, pen_y = 0, pen_w = 3, pen_h = 1, pen_dx = 0, pen_dy = 0,
               pen_fg = fg, pen_bg = bg\<rparr>)
        \<lparr>tb_width = 3, tb_height = 1, tb_cells = [c0, c1, c2]\<rparr> =
   Inr (Some \<lparr>pen_x = 0, pen_y = 0, pen_w = 3, pen_h = 1, pen_dx = 0, pen_dy = 1,
               pen_fg = fg, pen_bg = bg\<rparr>,
        \<lparr>tb_width = 3, tb_height = 1,
           tb_cells = [\<lparr>Ch = 233, Fg = fg, Bg = bg\<rparr>, c1, \<lparr>Ch = 97, Fg = fg, Bg = bg\<rparr>]\<rparr>)"
  by (simp add: Print_loop.simps printRow_at_def RuneCountInString_def range_string_def
        utf8_first_def)

text \<open>
  Claim C5, as stated: \<open>Row{Label("a"), Label("bb")}\<close> on a pen of width 10 gives the two
  labels the widths \<open>[5, 5]\<close>. It does not: a label's maximum width is its minimum width.
\<close>

theorem Row_of_two_labels_not_5_5:
  "fitSize 10 [Label ''a'', Label ''bb''] ReqWidth \<noteq> [5, 5]"
  by (simp add: fitSize_def fitSize_loop.simps)

text \<open>
  Claim C5, amended. \<open>Row{Label("a"), Label("bb")}\<close> drawn on a pen of width 10 and height
  1 at the origin of a backend of 10 by 1 cells gives the labels the widths \<open>[1, 2]\<close>:
  \<open>a\<close> is written in the cell 0, \<open>bb\<close> in the cells 1 and 2, with the colours of the
  pen, and the cells 3 to 9 are left as they were.
\<close>

theorem Row_of_two_labels:
  "fitSize 10 [Label ''a'', Label ''bb''] ReqWidth = [1, 2] \<and>
   Draw (Row [Label ''a'', Label ''bb''])
        (Some \<lparr>pen_x = 0, pen_y = 0, pen_w = 10, pen_h = 1, pen_dx = 0, pen_dy = 0,
               pen_fg = fg, pen_bg = bg\<rparr>)
        \<lparr>tb_width = 10, tb_height = 1,
           tb_cells = [c0, c1, c2, c3, c4, c5, c6, c7, c8, c9]\<rparr> =
   Inr (Some \<lparr>pen_x = 0, pen_y = 0, pen_w = 10, pen_h = 1, pen_dx = 0, pen_dy = 0,
               pen_fg = fg, pen_bg = bg\<rparr>,
        \<lparr>tb_width = 10, tb_height = 1,
           tb_cells = [\<lparr>Ch = 97, Fg = fg, Bg = bg\<rparr>, \<lparr>Ch = 98, Fg = fg, Bg = bg\<rparr>,
                       \<lparr>Ch = 98, Fg = fg, Bg = bg\<rparr>, c3, c4, c5, c6, c7, c8, c9]\<rparr>)"
  apply (simp only: Row_two_labels_sizes)
  apply (simp only: Draw.simps Width.simps Height.simps Let_def Row_two_labels_sizes pen.simps)
  apply (simp add: Row_two_labels_first Row_two_labels_second del: Draw.simps(1))
  done

text \<open>
  Claim C6. \<open>Clear\<close> on a pen with origin \<open>(x, y)\<close> and extent \<open>(w, h)\<close> is said to write
  blanks into exactly the cells of the columns \<open>[x, x+w)\<close> and the rows \<open>[y, y+h)\<close>. The
  code takes the row slice at \<open>y*sw + p.x\<close> with \<open>y\<close> counted from 0 and never adds
  \<open>p.y\<close> (\<open>printRow\<close> does add it), so the rows it writes are \<open>[0, h)\<close>
  (\<open>Clear_cells\<close>). On a terminal 1 wide and 2 tall, \<open>Clip(0, 1, 1, 1)\<close> of the pen of
  the terminal is the pen of the cell in row 1; clearing it overwrites the cell of row 0
  and leaves the cell of row 1 as it was.
\<close>

theorem Clear_ignores_pen_y:
  "Clip (Some \<lparr>pen_x = 0, pen_y = 0, pen_w = 1, pen_h = 2, pen_dx = 0, pen_dy = 0,
               pen_fg = fg, pen_bg = bg\<rparr>) 0 1 1 1 =
     Some \<lparr>pen_x = 0, pen_y = 1, pen_w = 1, pen_h = 1, pen_dx = 0, pen_dy = 0,
            pen_fg = fg, pen_bg = bg\<rparr> \<and>
   Clear (Some \<lparr>pen_x = 0, pen_y = 1, pen_w = 1, pen_h = 1, pen_dx = 0, pen_dy = 0,
                pen_fg = fg, pen_bg = bg\<rparr>)
         \<lparr>tb_width = 1, tb_height = 2, tb_cells = [c0, c1]\<rparr> =
     Inr (Some \<lparr>pen_x = 0, pen_y = 1, pen_w = 1, pen_h = 1, pen_dx = 0, pen_dy = 0,
                 pen_fg = fg, pen_bg = bg\<rparr>,
          \<lparr>tb_width = 1, tb_height = 2, tb_cells = [\<lparr>Ch = 32, Fg = fg, Bg = bg\<rparr>, c1]\<rparr>)"
  by (simp add: Clear_rows.simps Clear_row.simps)

text \<open>
  Claim C7. Every operation on a \<open>nil\<close> pen does nothing: \<open>Clip\<close> returns \<open>nil\<close>,
  \<open>Width\<close> and \<open>Height\<close> return 0, and \<open>SetFg\<close>, \<open>SetBg\<close>, \<open>Clear\<close>, \<open>Print\<close>,
  \<open>Println\<close> (and \<open>printRow\<close>, which returns 0) leave the backend and the pen as they are.
\<close>

theorem absent_pen_is_inert:
  "Clip None x y w h = None \<and> Width None = 0 \<and> Height None = 0 \<and>
   SetFg None fg = None \<and> SetBg None bg = None \<and>
   Clear None tb = Inr (None, tb) \<and>
   Print None s tb = Inr (None, tb) \<and>
   Println None s tb = Inr (None, tb) \<and>
   printRow None s tb = Inr (0, None, tb)"
  by simp

text \<open>
  Claim C8. \<open>fitSize\<close> is total: the growth loop is a terminating recursion for every
  budget (negative ones too) and every requirement list (empty, or with a minimum above its
  maximum), there is no panic in it, and the list it returns has the length of the input.
\<close>

theorem fitSize_total_length: "length (fitSize n t sel) = length t"
  by (simp add: fitSize_def fitSize_init_eq fitSize_loop_length)

text \<open>
  Claim C9, as stated: the width requirement of every \<open>Grid\<close> is the maximum over its rows
  of the row's requirement, plus the number of rows. The running maximum starts at 0:
  for the grid of the one row \<open>Row{Blank{MinWidth: -1, MaxWidth: -1}}\<close> the code returns
  \<open>(1, 1)\<close>, the claim gives \<open>(0, 0)\<close>.
\<close>

theorem Grid_ReqWidth_counterexample:
  "ReqWidth (Grid [[Blank (- 1) (- 1) 0 0]]) \<noteq> Grid_ReqWidth_claimed [[Blank (- 1) (- 1) 0 0]]"
  by (simp add: Grid_ReqWidth_claimed_def wrap64_def)

text \<open>
  Claim C9, amended. The minimum width of a \<open>Grid\<close> is the maximum of 0 and of the minimum
  widths that \<open>Row.ReqWidth\<close> returns for its rows, plus the number of rows; its maximum
  width is the maximum of 0 and of the maximum widths of its rows, plus the number of rows
  (one unit per row, not per column). The addition is the one of Go's \<open>int\<close>: a sum of
  \<open>2^63\<close> or more wraps around, so for \<open>Grid{Row{Blank{MaxWidth: math.MaxInt64}}}\<close> the
  maximum width is the least \<open>int\<close>.
\<close>

theorem Grid_ReqWidth_max:
  "ReqWidth (Grid t) =
     (wrap64 (Max (insert 0 (set (map (fst \<circ> ReqWidth \<circ> Row) t))) + int (length t)),
      wrap64 (Max (insert 0 (set (map (snd \<circ> ReqWidth \<circ> Row) t))) + int (length t))) \<and>
   ReqWidth (Grid [[Blank 0 9223372036854775807 0 0]]) = (1, - 9223372036854775808)"
proof -
  have "ReqWidth (Grid [[Blank 0 9223372036854775807 0 0]]) = (1, - 9223372036854775808)"
    by (simp add: wrap64_def)
  moreover have "ReqWidth (Grid t) =
     (wrap64 (Max (insert 0 (set (map (fst \<circ> ReqWidth \<circ> Row) t))) + int (length t)),
      wrap64 (Max (insert 0 (set (map (snd \<circ> ReqWidth \<circ> Row) t))) + int (length t)))"
    using fold_max_pairs [of "ReqWidth \<circ> Row" t 0 0] by (simp add: comp_def)
  ultimately show ?thesis by simp
qed

text \<open>
  Claim C10. After every call of \<open>Print\<close> on a pen that is not \<open>nil\<close>, with a text that is
  not empty and the cursor row inside the height of the pen, the cursor is said to be at
  column 0 of a later row. Where the call returns this holds
  (\<open>Print_cursor_after_return\<close>), but the call does not always return: \<open>printRow\<close> cuts
  the string to its own rune count instead of the length of the row, so a text longer than
  the row is not wrapped. Printing \<open>ab\<close> on the pen of a terminal 1 wide and 2 tall writes
  \<open>a\<close> and panics at \<open>row[1]\<close>, before \<open>p.dx = 0\<close> and \<open>p.dy++\<close>; nothing is printed on the
  second row.
\<close>

theorem Print_panics_before_next_row:
  "Print (Some \<lparr>pen_x = 0, pen_y = 0, pen_w = 1, pen_h = 2, pen_dx = 0, pen_dy = 0,
                pen_fg = fg, pen_bg = bg\<rparr>) ''ab''
         \<lparr>tb_width = 1, tb_height = 2, tb_cells = [c0, c1]\<rparr> =
   Inl (IndexOutOfRange,
        \<lparr>tb_width = 1, tb_height = 2, tb_cells = [\<lparr>Ch = 97, Fg = fg, Bg = bg\<rparr>, c1]\<rparr>)"
  by (simp add: Print_loop.simps printRow_at_def RuneCountInString_def range_string_def)

end
